theory Spec2Isabelle
  imports Main "HOL-Library.Word"
begin

unbundle bit_operations_syntax

chapter \<open>A SOCKS5 client: embedding of client.ts and utils.ts\<close>

section \<open>Bytes and strings\<close>

text \<open>
  A \<^verbatim>\<open>Uint8Array\<close> is a list of 8-bit words. A JavaScript string is a sequence of
  16-bit code units; \<open>str\<close> turns an (ASCII) literal into one.
\<close>

type_synonym u8 = "8 word"
type_synonym u16 = "16 word"
type_synonym js_string = "u16 list"

definition str :: "string \<Rightarrow> js_string" where
  "str s = map (\<lambda>c. of_nat (of_char c)) s"

section \<open>Protocol constants (client.ts, lines 4-31)\<close>

definition SOCKS_VERSION :: u8 where
  "SOCKS_VERSION = 5"

definition USERNAME_PASSWORD_AUTH_VERSION :: u8 where
  "USERNAME_PASSWORD_AUTH_VERSION = 1"

datatype AddrType = IPv4 | DomainName | IPv6

fun AddrType_value :: "AddrType \<Rightarrow> u8" where
  "AddrType_value IPv4 = 1"
| "AddrType_value DomainName = 3"
| "AddrType_value IPv6 = 4"

datatype AuthMethod = NoAuth | UsernamePassword | NoneAcceptable

fun AuthMethod_value :: "AuthMethod \<Rightarrow> u8" where
  "AuthMethod_value NoAuth = 0"
| "AuthMethod_value UsernamePassword = 2"
| "AuthMethod_value NoneAcceptable = 0xff"

datatype ReplyStatus =
    Success | GeneralError | RulesetError | NetworkUnreachable | HostUnreachable
  | ConnectionRefused | TTLExpired | UnsupportedCommand | UnsupportedAddress

fun ReplyStatus_value :: "ReplyStatus \<Rightarrow> u8" where
  "ReplyStatus_value Success = 0"
| "ReplyStatus_value GeneralError = 1"
| "ReplyStatus_value RulesetError = 2"
| "ReplyStatus_value NetworkUnreachable = 3"
| "ReplyStatus_value HostUnreachable = 4"
| "ReplyStatus_value ConnectionRefused = 5"
| "ReplyStatus_value TTLExpired = 6"
| "ReplyStatus_value UnsupportedCommand = 7"
| "ReplyStatus_value UnsupportedAddress = 8"

datatype Command = Connect | Bind | UdpAssociate

fun Command_value :: "Command \<Rightarrow> u8" where
  "Command_value Connect = 1"
| "Command_value Bind = 2"
| "Command_value UdpAssociate = 3"

section \<open>decodeError (client.ts, lines 33-54)\<close>

text \<open>
  The \<^verbatim>\<open>switch\<close> has eight cases, for \<^verbatim>\<open>GeneralError\<close> to
  \<^verbatim>\<open>UnsupportedAddress\<close>, and a default; there is no case for \<^verbatim>\<open>Success\<close>.
\<close>

definition decodeError :: "u8 \<Rightarrow> js_string" where
  "decodeError status =
     (if status = ReplyStatus_value GeneralError then str ''general SOCKS server failure''
      else if status = ReplyStatus_value RulesetError then str ''connection not allowed by ruleset''
      else if status = ReplyStatus_value NetworkUnreachable then str ''Network unreachable''
      else if status = ReplyStatus_value HostUnreachable then str ''Host unreachable''
      else if status = ReplyStatus_value ConnectionRefused then str ''Connection refused''
      else if status = ReplyStatus_value TTLExpired then str ''TTL expired''
      else if status = ReplyStatus_value UnsupportedCommand then str ''Command not supported''
      else if status = ReplyStatus_value UnsupportedAddress then str ''Address type not supported''
      else str ''unknown SOCKS error'')"

subsection \<open>The status table of the specification\<close>

text \<open>
  The specification names the statuses in a table (section 4.3):
  0 Success, 1 GeneralFailure, 2 RulesetDenied, 3 NetworkUnreachable, 4 HostUnreachable,
  5 ConnectionRefused, 6 TtlExpired, 7 CommandNotSupported, 8 AddressTypeNotSupported,
  other UnknownProxyError. \<open>status_table\<close> follows these words; \<open>message_entry\<close>
  says which entry of the table each message of the code stands for.
\<close>

datatype status_entry =
    Tbl_Success | Tbl_GeneralFailure | Tbl_RulesetDenied | Tbl_NetworkUnreachable
  | Tbl_HostUnreachable | Tbl_ConnectionRefused | Tbl_TtlExpired | Tbl_CommandNotSupported
  | Tbl_AddressTypeNotSupported | Tbl_UnknownProxyError

definition status_table :: "u8 \<Rightarrow> status_entry" where
  "status_table status =
     (if status = 0 then Tbl_Success
      else if status = 1 then Tbl_GeneralFailure
      else if status = 2 then Tbl_RulesetDenied
      else if status = 3 then Tbl_NetworkUnreachable
      else if status = 4 then Tbl_HostUnreachable
      else if status = 5 then Tbl_ConnectionRefused
      else if status = 6 then Tbl_TtlExpired
      else if status = 7 then Tbl_CommandNotSupported
      else if status = 8 then Tbl_AddressTypeNotSupported
      else Tbl_UnknownProxyError)"

definition message_entry :: "js_string \<Rightarrow> status_entry option" where
  "message_entry m =
     (if m = str ''general SOCKS server failure'' then Some Tbl_GeneralFailure
      else if m = str ''connection not allowed by ruleset'' then Some Tbl_RulesetDenied
      else if m = str ''Network unreachable'' then Some Tbl_NetworkUnreachable
      else if m = str ''Host unreachable'' then Some Tbl_HostUnreachable
      else if m = str ''Connection refused'' then Some Tbl_ConnectionRefused
      else if m = str ''TTL expired'' then Some Tbl_TtlExpired
      else if m = str ''Command not supported'' then Some Tbl_CommandNotSupported
      else if m = str ''Address type not supported'' then Some Tbl_AddressTypeNotSupported
      else if m = str ''unknown SOCKS error'' then Some Tbl_UnknownProxyError
      else None)"

text \<open>
  The messages client\_test.ts expects ("connectAndRequest() - request failed", lines 363-373),
  as pairs of a reply status and the text of the error.
\<close>

definition request_failed_cases :: "(u8 \<times> js_string) list" where
  "request_failed_cases =
     [(ReplyStatus_value GeneralError, str ''general SOCKS server failure''),
      (ReplyStatus_value RulesetError, str ''connection not allowed by ruleset''),
      (ReplyStatus_value NetworkUnreachable, str ''Network unreachable''),
      (ReplyStatus_value HostUnreachable, str ''Host unreachable''),
      (ReplyStatus_value ConnectionRefused, str ''Connection refused''),
      (ReplyStatus_value TTLExpired, str ''TTL expired''),
      (ReplyStatus_value UnsupportedCommand, str ''Command not supported''),
      (ReplyStatus_value UnsupportedAddress, str ''Address type not supported''),
      (255, str ''unknown SOCKS error'')]"

section \<open>Primitives of the platform\<close>

text \<open>
  The code calls built-in functions of JavaScript. They are modelled here as far as the
  code can reach them.
\<close>

subsection \<open>Numbers and strings\<close>

text \<open>
  \<^verbatim>\<open>String(n)\<close> and a number inside a template string: the decimal digits of a
  non-negative integer.
\<close>

function String_number :: "nat \<Rightarrow> js_string" where
  "String_number n =
     (if n < 10 then [of_nat (48 + n)]
      else String_number (n div 10) @ [of_nat (48 + n mod 10)])"
  by pat_completeness auto
termination
  by (relation "measure id") auto

declare String_number.simps [simp del]

text \<open>
  An element of a \<^verbatim>\<open>Uint8Array\<close> built by \<^verbatim>\<open>Uint8Array.from\<close> keeps the
  number modulo 256.
\<close>

definition ToUint8 :: "nat \<Rightarrow> u8" where
  "ToUint8 n = of_nat (n mod 256)"

text \<open>\<^verbatim>\<open>s.split(sep)\<close> for a separator of one character; \<^verbatim>\<open>parts.join(sep)\<close>.\<close>

fun split_from :: "u16 \<Rightarrow> js_string \<Rightarrow> js_string \<Rightarrow> js_string list" where
  "split_from sep part [] = [part]"
| "split_from sep part (c # cs) =
     (if c = sep then part # split_from sep [] cs else split_from sep (part @ [c]) cs)"

definition split :: "js_string \<Rightarrow> u16 \<Rightarrow> js_string list" where
  "split s sep = split_from sep [] s"

fun join :: "js_string list \<Rightarrow> js_string \<Rightarrow> js_string" where
  "join [] sep = []"
| "join [p] sep = p"
| "join (p # q # ps) sep = p @ sep @ join (q # ps) sep"

definition is_digit :: "u16 \<Rightarrow> bool" where
  "is_digit c = (0x30 \<le> c \<and> c \<le> 0x39)"

definition is_hex :: "u16 \<Rightarrow> bool" where
  "is_hex c = ((0x41 \<le> c \<and> c \<le> 0x46) \<or> (0x61 \<le> c \<and> c \<le> 0x66) \<or> (0x30 \<le> c \<and> c \<le> 0x39))"

text \<open>
  \<^verbatim>\<open>Number(s)\<close>, stored into a \<^verbatim>\<open>Uint8Array\<close>. The empty string is 0 and a string
  of at most 15 decimal digits is its value, exactly. Every other string (a sign, a
  fraction, an exponent, a radix prefix, white space, more digits than a double holds
  exactly, or no number at all) is left to the parameter \<open>other\<close>, which stands for what
  the platform computes there.
\<close>

definition decimal_value :: "js_string \<Rightarrow> nat" where
  "decimal_value s = foldl (\<lambda>acc c. 10 * acc + (unat c - 48)) 0 s"

definition Number_to_uint8 :: "(js_string \<Rightarrow> u8) \<Rightarrow> js_string \<Rightarrow> u8" where
  "Number_to_uint8 other s =
     (if s = [] then 0
      else if list_all is_digit s \<and> length s \<le> 15 then ToUint8 (decimal_value s)
      else other s)"

text \<open>
  \<^verbatim>\<open>parseInt(x, 16)\<close>: the value of the longest prefix of hexadecimal digits, \<open>None\<close>
  (NaN) when there is none. The code calls it only on the parts of a host name that
  matched \<^verbatim>\<open>v6Pattern\<close>, which are hexadecimal digits throughout, so that white
  space, a sign and a \<^verbatim>\<open>0x\<close> prefix do not occur.
\<close>

definition hex_digit_value :: "u16 \<Rightarrow> nat" where
  "hex_digit_value c =
     (if is_digit c then unat c - 48
      else if 0x41 \<le> c \<and> c \<le> 0x46 then unat c - 55
      else unat c - 87)"

definition parseInt16 :: "js_string \<Rightarrow> nat option" where
  "parseInt16 s =
     (let ds = takeWhile is_hex s
      in if ds = [] then None else Some (foldl (\<lambda>acc c. 16 * acc + hex_digit_value c) 0 ds))"

subsection \<open>TextEncoder and TextDecoder\<close>

text \<open>
  \<^verbatim>\<open>new TextEncoder().encode(s)\<close>: the UTF-8 bytes of a string of UTF-16 code units; a
  surrogate without its partner becomes U+FFFD.
\<close>

definition utf8_code_point :: "nat \<Rightarrow> u8 list" where
  "utf8_code_point cp =
     (if cp < 0x80 then [of_nat cp]
      else if cp < 0x800 then [of_nat (0xC0 + cp div 64), of_nat (0x80 + cp mod 64)]
      else if cp < 0x10000 then
        [of_nat (0xE0 + cp div 4096), of_nat (0x80 + cp div 64 mod 64), of_nat (0x80 + cp mod 64)]
      else
        [of_nat (0xF0 + cp div 262144), of_nat (0x80 + cp div 4096 mod 64),
         of_nat (0x80 + cp div 64 mod 64), of_nat (0x80 + cp mod 64)])"

definition is_high_surrogate :: "u16 \<Rightarrow> bool" where
  "is_high_surrogate u = (0xD800 \<le> u \<and> u \<le> 0xDBFF)"

definition is_low_surrogate :: "u16 \<Rightarrow> bool" where
  "is_low_surrogate u = (0xDC00 \<le> u \<and> u \<le> 0xDFFF)"

fun TextEncoder_encode :: "js_string \<Rightarrow> u8 list" where
  "TextEncoder_encode [] = []"
| "TextEncoder_encode [u] =
     (if is_high_surrogate u \<or> is_low_surrogate u then utf8_code_point 0xFFFD
      else utf8_code_point (unat u))"
| "TextEncoder_encode (u # v # us) =
     (if is_high_surrogate u then
        (if is_low_surrogate v then
           utf8_code_point (0x10000 + (unat u - 0xD800) * 0x400 + (unat v - 0xDC00))
           @ TextEncoder_encode us
         else utf8_code_point 0xFFFD @ TextEncoder_encode (v # us))
      else if is_low_surrogate u then utf8_code_point 0xFFFD @ TextEncoder_encode (v # us)
      else utf8_code_point (unat u) @ TextEncoder_encode (v # us))"

text \<open>
  \<^verbatim>\<open>new TextDecoder().decode(bytes)\<close>: the UTF-8 decoder of the Encoding standard. It
  keeps the code point under construction, the number of continuation bytes still needed
  and the bounds of the next one; an ill-formed sequence becomes U+FFFD and the byte that
  ended it is read again. A byte order mark at the start is dropped.
\<close>

function utf8_decode :: "nat \<Rightarrow> nat \<Rightarrow> nat \<Rightarrow> nat \<Rightarrow> u8 list \<Rightarrow> nat list" where
  "utf8_decode cp needed lower upper [] = (if needed = 0 then [] else [0xFFFD])"
| "utf8_decode cp needed lower upper (byte # bytes) =
     (let b = unat byte in
      if needed = 0 then
        (if b \<le> 0x7F then b # utf8_decode 0 0 0x80 0xBF bytes
         else if 0xC2 \<le> b \<and> b \<le> 0xDF then utf8_decode (b mod 32) 1 0x80 0xBF bytes
         else if 0xE0 \<le> b \<and> b \<le> 0xEF then
           utf8_decode (b mod 16) 2 (if b = 0xE0 then 0xA0 else 0x80)
             (if b = 0xED then 0x9F else 0xBF) bytes
         else if 0xF0 \<le> b \<and> b \<le> 0xF4 then
           utf8_decode (b mod 8) 3 (if b = 0xF0 then 0x90 else 0x80)
             (if b = 0xF4 then 0x8F else 0xBF) bytes
         else 0xFFFD # utf8_decode 0 0 0x80 0xBF bytes)
      else if b < lower \<or> upper < b then 0xFFFD # utf8_decode 0 0 0x80 0xBF (byte # bytes)
      else if needed = 1 then (cp * 64 + b mod 64) # utf8_decode 0 0 0x80 0xBF bytes
      else utf8_decode (cp * 64 + b mod 64) (needed - 1) 0x80 0xBF bytes)"
  by pat_completeness auto
termination
  by (relation "measure (\<lambda>(cp, needed, lower, upper, bytes).
        2 * length bytes + (if needed = 0 then 0 else 1))") auto

declare utf8_decode.simps [simp del]

definition utf16_code_units :: "nat \<Rightarrow> js_string" where
  "utf16_code_units cp =
     (if cp < 0x10000 then [of_nat cp]
      else [of_nat (0xD800 + (cp - 0x10000) div 0x400), of_nat (0xDC00 + (cp - 0x10000) mod 0x400)])"

definition TextDecoder_decode :: "u8 list \<Rightarrow> js_string" where
  "TextDecoder_decode bytes =
     (let cps = utf8_decode 0 0 0x80 0xBF bytes
      in concat (map utf16_code_units
           (case cps of [] \<Rightarrow> [] | c # cs \<Rightarrow> if c = 0xFEFF then cs else cps)))"

subsection \<open>Regular expressions\<close>

text \<open>
  The two patterns of the code use character classes, sequence and bounded repetition
  \<^verbatim>\<open>{lo,hi}\<close>. \<open>rx_rems r s\<close> lists what is left of \<open>s\<close> after each way of matching
  \<open>r\<close> at its start; \<^verbatim>\<open>test\<close> asks whether there is such a way (and, under
  \<^verbatim>\<open>$\<close>, one that leaves nothing).
\<close>

datatype rx = Cls "u16 \<Rightarrow> bool" | Seq rx rx | Rep nat nat rx

fun rep_rems :: "(js_string \<Rightarrow> js_string list) \<Rightarrow> nat \<Rightarrow> nat \<Rightarrow> js_string \<Rightarrow> js_string list" where
  "rep_rems f lo 0 s = (if lo = 0 then [s] else [])"
| "rep_rems f lo (Suc hi) s =
     (if lo = 0 then [s] else []) @ concat (map (rep_rems f (lo - 1) hi) (f s))"

fun rx_rems :: "rx \<Rightarrow> js_string \<Rightarrow> js_string list" where
  "rx_rems (Cls p) s = (case s of [] \<Rightarrow> [] | c # cs \<Rightarrow> if p c then [cs] else [])"
| "rx_rems (Seq a b) s = concat (map (rx_rems b) (rx_rems a s))"
| "rx_rems (Rep lo hi r) s = rep_rems (rx_rems r) lo hi s"

section \<open>Errors\<close>

text \<open>
  A thrown value: \<^verbatim>\<open>new Error(message)\<close>, \<^verbatim>\<open>new Deno.errors.UnexpectedEof(message)\<close>,
  and \<^verbatim>\<open>Deno.errors.BadResource\<close>, which the platform throws when a closed resource
  is closed again.
\<close>

datatype js_error = Error js_string | UnexpectedEof js_string | BadResource js_string

section \<open>utils.ts\<close>

subsection \<open>Readers\<close>

text \<open>
  A \<^verbatim>\<open>Deno.Reader\<close> has one method, \<^verbatim>\<open>read(p)\<close>, which fills a prefix of \<open>p\<close> and
  returns the number of bytes, or \<^verbatim>\<open>null\<close> at the end of the stream. Two kinds of
  reader occur. \<open>Stream cs\<close> is a connection whose peer sends the chunks \<open>cs\<close> and then
  closes: a read delivers the next chunk, or as much of it as \<open>p\<close> holds (an empty chunk
  is a read of 0 bytes). \<open>ArrayReader arr offset\<close> is the object that
  \<^verbatim>\<open>uint8ArrayToReader\<close> (utils.ts, lines 1-14) returns, with its variable
  \<^verbatim>\<open>offset\<close>. \<open>reader_read r k\<close> is a read into a buffer of length \<open>k\<close>: the bytes
  written and the reader afterwards, \<open>None\<close> for \<^verbatim>\<open>null\<close>.
\<close>

datatype reader = Stream "u8 list list" | ArrayReader "u8 list" nat

fun reader_read :: "reader \<Rightarrow> nat \<Rightarrow> (u8 list \<times> reader) option" where
  "reader_read (Stream []) k = None"
| "reader_read (Stream (c # cs)) k =
     Some (take k c, Stream (if k < length c then drop k c # cs else cs))"
| "reader_read (ArrayReader arr offset) k =
     (if offset \<ge> length arr then None
      else let n = min k (length arr - offset)
           in Some (take n (drop offset arr), ArrayReader arr (offset + n)))"

definition uint8ArrayToReader :: "u8 list \<Rightarrow> reader" where
  "uint8ArrayToReader arr = ArrayReader arr 0"

text \<open>The bytes a reader still holds, and a measure of the reads it can still answer.\<close>

fun remaining :: "reader \<Rightarrow> u8 list" where
  "remaining (Stream cs) = concat cs"
| "remaining (ArrayReader arr offset) = drop offset arr"

fun reader_size :: "reader \<Rightarrow> nat" where
  "reader_size (Stream cs) = sum_list (map (\<lambda>c. Suc (length c)) cs)"
| "reader_size (ArrayReader arr offset) = length arr - offset"

lemma reader_read_smaller:
  "reader_read r k = Some (m, r') \<Longrightarrow> 0 < k \<Longrightarrow> reader_size r' < reader_size r"
  by (induction r k rule: reader_read.induct) (auto split: if_splits simp: Let_def)

subsection \<open>readN (utils.ts, lines 16-32)\<close>

text \<open>
  \<open>set_at out off src\<close> is \<open>out\<close> after \<open>src\<close> was written at \<open>off\<close>: what a read into
  \<^verbatim>\<open>out.subarray(off)\<close> does to \<open>out\<close>. \<open>readN\<close> returns the buffer or the error
  thrown, and the reader as the reads left it.
\<close>

definition set_at :: "u8 list \<Rightarrow> nat \<Rightarrow> u8 list \<Rightarrow> u8 list" where
  "set_at out off src = take off out @ src @ drop (off + length src) out"

definition eof_message :: "nat \<Rightarrow> js_string" where
  "eof_message k =
     str ''reached EOF but we expected to read '' @ String_number k @ str '' more bytes''"

function readN_loop :: "reader \<Rightarrow> nat \<Rightarrow> nat \<Rightarrow> u8 list \<Rightarrow> (js_error + u8 list) \<times> reader" where
  "readN_loop reader n nRead out =
     (if nRead < n then
        (case reader_read reader (n - nRead) of
           None \<Rightarrow> (Inl (UnexpectedEof (eof_message (n - nRead))), reader)
         | Some (m, reader') \<Rightarrow> readN_loop reader' n (nRead + length m) (set_at out nRead m))
      else (Inr out, reader))"
  by pat_completeness auto
termination
  by (relation "measure (\<lambda>(r, n, nRead, out). reader_size r)") (auto dest: reader_read_smaller)

declare readN_loop.simps [simp del]

definition readN :: "reader \<Rightarrow> nat \<Rightarrow> (js_error + u8 list) \<times> reader" where
  "readN reader n = readN_loop reader n 0 (replicate n 0)"

section \<open>The address codec (client.ts, lines 56-116)\<close>

text \<open>
  \<^verbatim>\<open>v4Pattern = /^(?:\d{1,3}\.){3}\d{1,3}/\<close> has no \<^verbatim>\<open>$\<close>: it matches at the start
  of the host name. \<^verbatim>\<open>v6Pattern = /^(?:[A-F0-9]{1,4}:){7}[A-F0-9]{1,4}$/i\<close> matches
  the whole host name, in either case of the letters.
\<close>

definition v4Pattern :: rx where
  "v4Pattern = Seq (Rep 3 3 (Seq (Rep 1 3 (Cls is_digit)) (Cls (\<lambda>c. c = 0x2E))))
                   (Rep 1 3 (Cls is_digit))"

definition v6Pattern :: rx where
  "v6Pattern = Seq (Rep 7 7 (Seq (Rep 1 4 (Cls is_hex)) (Cls (\<lambda>c. c = 0x3A))))
                   (Rep 1 4 (Cls is_hex))"

definition v4Pattern_test :: "js_string \<Rightarrow> bool" where
  "v4Pattern_test s = (rx_rems v4Pattern s \<noteq> [])"

definition v6Pattern_test :: "js_string \<Rightarrow> bool" where
  "v6Pattern_test s = ([] \<in> set (rx_rems v6Pattern s))"

text \<open>
  \<open>serializeAddress\<close>. The port is a non-negative integer; \<^verbatim>\<open>port >> 8\<close> and
  \<^verbatim>\<open>port % 256\<close>, stored as bytes, are its second lowest and its lowest byte.
  \<^verbatim>\<open>parseInt\<close> of no digits is NaN, and both bytes of NaN are 0.
\<close>

definition portBytes :: "nat \<Rightarrow> u8 list" where
  "portBytes port = [ToUint8 (port div 256), ToUint8 (port mod 256)]"

definition serializeAddress :: "(js_string \<Rightarrow> u8) \<Rightarrow> js_string \<Rightarrow> nat \<Rightarrow> u8 list" where
  "serializeAddress other hostname port =
     (if v4Pattern_test hostname then
        [AddrType_value IPv4] @ map (Number_to_uint8 other) (split hostname 0x2E) @ portBytes port
      else if v6Pattern_test hostname then
        [AddrType_value IPv6]
        @ concat (map (\<lambda>x. case parseInt16 x of
                              None \<Rightarrow> [0, 0]
                            | Some num \<Rightarrow> [ToUint8 (num div 256), ToUint8 (num mod 256)])
                   (split hostname 0x3A))
        @ portBytes port
      else
        (let bytes = TextEncoder_encode hostname
         in [AddrType_value DomainName, ToUint8 (length bytes)] @ bytes @ portBytes port))"

text \<open>
  \<open>deserializeAddress\<close> reads from a reader and returns the host name, the port and the
  number of bytes read, with the reader as the reads left it. \<open>pairs_be\<close> is the loop over
  the 16 bytes of an IPv6 address, \<^verbatim>\<open>(buff[i] << 8) + buff[i + 1]\<close>; the buffer has
  16 bytes, so that a last byte without its partner does not arise.
\<close>

fun pairs_be :: "u8 list \<Rightarrow> nat list" where
  "pairs_be (hi # lo # rest) = (unat hi * 256 + unat lo) # pairs_be rest"
| "pairs_be [hi] = [unat hi * 256]"
| "pairs_be [] = []"

record address =
  hostname :: js_string
  port :: nat
  bytesRead :: nat

definition deserializeHost :: "u8 \<Rightarrow> reader \<Rightarrow> (js_error + (js_string \<times> nat)) \<times> reader" where
  "deserializeHost type r =
     (if type = AddrType_value IPv4 then
        (case readN r 4 of
           (Inl e, r') \<Rightarrow> (Inl e, r')
         | (Inr parts, r') \<Rightarrow>
             (Inr (join (map (\<lambda>b. String_number (unat b)) parts) (str ''.''), 4), r'))
      else if type = AddrType_value IPv6 then
        (case readN r 16 of
           (Inl e, r') \<Rightarrow> (Inl e, r')
         | (Inr buff, r') \<Rightarrow>
             (Inr (join (map String_number (pairs_be buff)) (str '':''), 16), r'))
      else if type = AddrType_value DomainName then
        (case readN r 1 of
           (Inl e, r') \<Rightarrow> (Inl e, r')
         | (Inr lbuf, r') \<Rightarrow>
             (case readN r' (unat (hd lbuf)) of
                (Inl e, r'') \<Rightarrow> (Inl e, r'')
              | (Inr name, r'') \<Rightarrow> (Inr (TextDecoder_decode name, unat (hd lbuf) + 1), r'')))
      else (Inl (Error (str ''unexpected address type: '' @ String_number (unat type))), r))"

definition deserializeAddress :: "reader \<Rightarrow> (js_error + address) \<times> reader" where
  "deserializeAddress r =
     (case readN r 1 of
        (Inl e, r1) \<Rightarrow> (Inl e, r1)
      | (Inr tbuf, r1) \<Rightarrow>
          (case deserializeHost (hd tbuf) r1 of
             (Inl e, r2) \<Rightarrow> (Inl e, r2)
           | (Inr (host, len), r2) \<Rightarrow>
               (case readN r2 2 of
                  (Inl e, r3) \<Rightarrow> (Inl e, r3)
                | (Inr pbuf, r3) \<Rightarrow>
                    (Inr \<lparr>hostname = host,
                          port = unat (pbuf ! 0) * 256 + unat (pbuf ! 1),
                          bytesRead = len + 3\<rparr>, r3))))"

section \<open>Connections and sockets of the platform\<close>

text \<open>
  A resource of the platform (a TCP connection, a datagram socket) is open or closed.
  \<^verbatim>\<open>close()\<close> on a closed resource throws \<^verbatim>\<open>BadResource\<close>, as the tests expect
  (client\_test.ts, lines 507 and 522); on an open one it closes it, unless the platform
  refuses with the error \<open>close_fault\<close>. \<open>close_calls\<close> counts the calls.
\<close>

record resource =
  is_open :: bool
  close_calls :: nat
  close_fault :: "js_error option"

definition resource_close :: "resource \<Rightarrow> js_error option \<times> resource" where
  "resource_close r =
     (let r' = r\<lparr>close_calls := close_calls r + 1\<rparr>
      in if is_open r then
           (case close_fault r of
              Some e \<Rightarrow> (Some e, r')
            | None \<Rightarrow> (None, r'\<lparr>is_open := False\<rparr>))
         else (Some (BadResource (str ''Bad resource ID'')), r'))"

text \<open>
  A connection, as \<^verbatim>\<open>Deno.connect\<close> returns it: the reader of what the proxy sends,
  the messages written so far, and the resource. The writes are taken to succeed.
\<close>

record conn =
  incoming :: reader
  outgoing :: "u8 list list"
  sock :: resource

definition writeAll :: "conn \<Rightarrow> u8 list \<Rightarrow> conn" where
  "writeAll c bytes = c\<lparr>outgoing := outgoing c @ [bytes]\<rparr>"

definition conn_readN :: "conn \<Rightarrow> nat \<Rightarrow> (js_error + u8 list) \<times> conn" where
  "conn_readN c n = (case readN (incoming c) n of (res, r') \<Rightarrow> (res, c\<lparr>incoming := r'\<rparr>))"

text \<open>\<^verbatim>\<open>try { conn.close(); } catch { /* ignore */ }\<close>\<close>

definition close_ignoring :: "conn \<Rightarrow> conn" where
  "close_ignoring c = c\<lparr>sock := snd (resource_close (sock c))\<rparr>"

section \<open>connectAndRequest (client.ts, lines 145-238)\<close>

text \<open>
  The function is given here in its three parts: the negotiation of the method, the
  exchange of user name and password, the request. \<open>credentials\<close> is the user name and
  password of the configuration, if it has them; \<open>conn0\<close> is the connection that
  \<^verbatim>\<open>Deno.connect\<close> returned. The result is the address of the reply or the error
  thrown, with the connection as the call left it. When the proxy chooses user name and
  password though none is configured, both fields are \<^verbatim>\<open>undefined\<close> and encode to no
  bytes.
\<close>

definition authenticate ::
  "(js_string \<times> js_string) option \<Rightarrow> u8 \<Rightarrow> conn \<Rightarrow> js_error option \<times> conn" where
  "authenticate credentials method c =
     (if method = AuthMethod_value UsernamePassword then
        (let username = (case credentials of None \<Rightarrow> [] | Some (u, p) \<Rightarrow> TextEncoder_encode u);
             password = (case credentials of None \<Rightarrow> [] | Some (u, p) \<Rightarrow> TextEncoder_encode p);
             c1 = writeAll c
                    ([USERNAME_PASSWORD_AUTH_VERSION, ToUint8 (length username)] @ username
                     @ [ToUint8 (length password)] @ password)
         in case conn_readN c1 2 of
              (Inl e, c2) \<Rightarrow> (Some e, c2)
            | (Inr reply, c2) \<Rightarrow>
                (let authVersion = reply ! 0; status = reply ! 1
                 in if authVersion \<noteq> USERNAME_PASSWORD_AUTH_VERSION
                       \<or> status \<noteq> ReplyStatus_value Success
                    then (Some (Error
                            (if authVersion \<noteq> USERNAME_PASSWORD_AUTH_VERSION
                             then str ''unsupported authentication version number: ''
                                  @ String_number (unat authVersion)
                             else str ''authentication failed'')),
                          close_ignoring c2)
                    else (None, c2)))
      else (None, c))"

definition request ::
  "(js_string \<Rightarrow> u8) \<Rightarrow> Command \<Rightarrow> js_string \<Rightarrow> nat \<Rightarrow> conn \<Rightarrow> (js_error + address) \<times> conn" where
  "request other cmd host prt c =
     (let c1 = writeAll c ([SOCKS_VERSION, Command_value cmd, 0] @ serializeAddress other host prt)
      in case conn_readN c1 3 of
           (Inl e, c2) \<Rightarrow> (Inl e, c2)
         | (Inr reply, c2) \<Rightarrow>
             (let replyVersion = reply ! 0; status = reply ! 1
              in if replyVersion \<noteq> SOCKS_VERSION \<or> status \<noteq> ReplyStatus_value Success
                 then (Inl (Error
                         (if replyVersion \<noteq> SOCKS_VERSION
                          then str ''unsupported SOCKS version number: ''
                               @ String_number (unat replyVersion)
                          else decodeError status)),
                       close_ignoring c2)
                 else (case deserializeAddress (incoming c2) of
                         (res, r') \<Rightarrow> (res, c2\<lparr>incoming := r'\<rparr>))))"

definition connectAndRequest ::
  "(js_string \<Rightarrow> u8) \<Rightarrow> (js_string \<times> js_string) option \<Rightarrow> Command \<Rightarrow> js_string \<Rightarrow> nat \<Rightarrow> conn
   \<Rightarrow> (js_error + address) \<times> conn" where
  "connectAndRequest other credentials cmd host prt conn0 =
     (let methods = [AuthMethod_value NoAuth]
                    @ (if credentials = None then [] else [AuthMethod_value UsernamePassword]);
          c1 = writeAll conn0 ([SOCKS_VERSION, ToUint8 (length methods)] @ methods)
      in case conn_readN c1 2 of
           (Inl e, c2) \<Rightarrow> (Inl e, c2)
         | (Inr reply, c2) \<Rightarrow>
             (let negotiationVersion = reply ! 0; method = reply ! 1
              in if negotiationVersion \<noteq> SOCKS_VERSION
                    \<or> method = AuthMethod_value NoneAcceptable
                 then (Inl (Error
                         (if negotiationVersion \<noteq> SOCKS_VERSION
                          then str ''unsupported SOCKS version number: ''
                               @ String_number (unat negotiationVersion)
                          else str ''no acceptable authentication methods'')),
                       close_ignoring c2)
                 else (case authenticate credentials method c2 of
                         (Some e, c3) \<Rightarrow> (Inl e, c3)
                       | (None, c3) \<Rightarrow> request other cmd host prt c3)))"

subsection \<open>The call with its connection (line 146)\<close>

text \<open>
  \<^verbatim>\<open>#connectAndRequest\<close> opens with \<^verbatim>\<open>await Deno.connect(...)\<close>. Of the network, what
  counts here is what each call of \<^verbatim>\<open>Deno.connect\<close> comes to: \<open>answers net k\<close> is the
  connection that the call number \<open>k\<close> returns, or the error it throws, and
  \<open>connect_calls\<close> is the number of calls made so far. \<open>lost\<close> collects the connections
  of the calls of \<^verbatim>\<open>#connectAndRequest\<close> that threw, as they were left: nothing in
  the program holds them any more. \<open>connectAndRequest_net\<close> is the whole function: the
  result is the error thrown or the pair of \<^verbatim>\<open>conn\<close> and the address returned.
\<close>

record network =
  answers :: "nat \<Rightarrow> js_error + conn"
  connect_calls :: nat
  lost :: "conn list"

definition Deno_connect :: "network \<Rightarrow> (js_error + conn) \<times> network" where
  "Deno_connect nw = (answers nw (connect_calls nw), nw\<lparr>connect_calls := connect_calls nw + 1\<rparr>)"

definition connectAndRequest_net ::
  "(js_string \<Rightarrow> u8) \<Rightarrow> (js_string \<times> js_string) option \<Rightarrow> Command \<Rightarrow> js_string \<Rightarrow> nat \<Rightarrow> network
   \<Rightarrow> (js_error + conn \<times> address) \<times> network" where
  "connectAndRequest_net other credentials cmd host prt nw =
     (case Deno_connect nw of
        (Inl e, nw1) \<Rightarrow> (Inl e, nw1)
      | (Inr conn0, nw1) \<Rightarrow>
          (case connectAndRequest other credentials cmd host prt conn0 of
             (Inl e, c) \<Rightarrow> (Inl e, nw1\<lparr>lost := lost nw1 @ [c]\<rparr>)
           | (Inr a, c) \<Rightarrow> (Inr (c, a), nw1)))"

section \<open>listenDatagram (client.ts, lines 286-390)\<close>

subsection \<open>The state of a relay\<close>

text \<open>
  The variables of a call of \<^verbatim>\<open>listenDatagram\<close>: the datagram socket
  \<^verbatim>\<open>udpConn\<close>, \<^verbatim>\<open>proxyInfo\<close> (\<^verbatim>\<open>null\<close> until the negotiation has succeeded) and the
  promise \<^verbatim>\<open>isReady\<close>.
\<close>

record proxy_info =
  tcpConn :: conn
  addr :: "js_string \<times> nat"

datatype promise = Pending | Fulfilled | Rejected js_error

record relay =
  udpConn :: resource
  proxyInfo :: "proxy_info option"
  isReady :: promise

subsection \<open>close (lines 292-307)\<close>

text \<open>
  Both \<^verbatim>\<open>catch\<close> blocks assign the one variable \<^verbatim>\<open>err\<close>. A value thrown is an
  error object, which counts as true in \<^verbatim>\<open>err && throwErr\<close>. The result is the error
  thrown, if any, and the state afterwards.
\<close>

definition close :: "bool \<Rightarrow> relay \<Rightarrow> js_error option \<times> relay" where
  "close throwErr st =
     (let (err1, st1) =
            (case proxyInfo st of
               None \<Rightarrow> (None, st)
             | Some info \<Rightarrow>
                 (case resource_close (sock (tcpConn info)) of
                    (e, s') \<Rightarrow>
                      (e, st\<lparr>proxyInfo := Some (info\<lparr>tcpConn := (tcpConn info)\<lparr>sock := s'\<rparr>\<rparr>)\<rparr>)));
          (err2, u') = resource_close (udpConn st1);
          err = (case err2 of Some e \<Rightarrow> Some e | None \<Rightarrow> err1)
      in (if throwErr then err else None, st1\<lparr>udpConn := u'\<rparr>))"

subsection \<open>Waiting for readiness\<close>

text \<open>
  \<^verbatim>\<open>if (!proxyInfo) { await isReady; }\<close>, the first statement of \<^verbatim>\<open>send\<close> and of
  \<^verbatim>\<open>receive\<close>: \<open>None\<close> when the caller is suspended on the pending promise,
  \<open>Some (Some e)\<close> when the promise is rejected and the \<^verbatim>\<open>await\<close> throws \<open>e\<close>,
  \<open>Some None\<close> when the call goes on.
\<close>

definition await_ready :: "relay \<Rightarrow> js_error option option" where
  "await_ready st =
     (case proxyInfo st of
        Some info \<Rightarrow> Some None
      | None \<Rightarrow>
          (case isReady st of
             Pending \<Rightarrow> None
           | Fulfilled \<Rightarrow> Some None
           | Rejected e \<Rightarrow> Some (Some e)))"

subsection \<open>Buffers\<close>

text \<open>
  The byte buffers that exist, by number, and a \<^verbatim>\<open>Uint8Array\<close> as a view of one of
  them: the buffer, the offset and the length. \<^verbatim>\<open>new Uint8Array(n)\<close> makes a buffer
  of zeros, \<^verbatim>\<open>subarray\<close> a view of the same buffer, \<open>byte_at\<close> is \<^verbatim>\<open>v[i]\<close>
  (\<^verbatim>\<open>undefined\<close> past the end) and \<open>truthy\<close> its value as a condition.
\<close>

type_synonym heap = "u8 list list"

record view =
  v_buf :: nat
  v_off :: nat
  v_len :: nat

definition new_Uint8Array :: "heap \<Rightarrow> nat \<Rightarrow> view \<times> heap" where
  "new_Uint8Array h n = (\<lparr>v_buf = length h, v_off = 0, v_len = n\<rparr>, h @ [replicate n 0])"

definition view_bytes :: "heap \<Rightarrow> view \<Rightarrow> u8 list" where
  "view_bytes h v = take (v_len v) (drop (v_off v) (h ! v_buf v))"

definition subarray :: "view \<Rightarrow> nat \<Rightarrow> view" where
  "subarray v begin =
     (let b = min begin (v_len v) in v\<lparr>v_off := v_off v + b, v_len := v_len v - b\<rparr>)"

definition byte_at :: "heap \<Rightarrow> view \<Rightarrow> nat \<Rightarrow> u8 option" where
  "byte_at h v i = (if i < v_len v then Some (h ! v_buf v ! (v_off v + i)) else None)"

definition truthy :: "u8 option \<Rightarrow> bool" where
  "truthy x = (case x of None \<Rightarrow> False | Some b \<Rightarrow> b \<noteq> 0)"

text \<open>
  \<^verbatim>\<open>udpConn.receive(buff)\<close> of the platform, for the datagram that arrives: it is
  copied into \<open>buff\<close>, cut to the length of \<open>buff\<close>, and the result is the view of
  \<open>buff\<close> that holds it.
\<close>

definition udp_receive :: "heap \<Rightarrow> view \<Rightarrow> u8 list \<Rightarrow> view \<times> heap" where
  "udp_receive h buff datagram =
     (let n = min (length datagram) (v_len buff)
      in (buff\<lparr>v_len := n\<rparr>,
          h[v_buf buff := set_at (h ! v_buf buff) (v_off buff) (take n datagram)]))"

subsection \<open>receive (lines 364-384)\<close>

text \<open>
  \<open>receive st p h queue\<close>: the call \<^verbatim>\<open>receive(p)\<close> in the state \<open>st\<close>, with the buffers
  \<open>h\<close>, when the datagrams \<open>queue\<close> arrive at the socket, in this order. The result is
  the error thrown or the pair returned (a view and the host name and port of the source),
  the buffers afterwards and the datagrams not yet received; \<open>None\<close> when the call does
  not return, suspended on the promise or on a socket at which nothing arrives any more.
  A closed socket throws \<^verbatim>\<open>BadResource\<close>.
\<close>

definition buffer_size :: "view option \<Rightarrow> nat" where
  "buffer_size p = (case p of Some v \<Rightarrow> v_len v + 1024 | None \<Rightarrow> 2048)"

fun receive ::
  "relay \<Rightarrow> view option \<Rightarrow> heap \<Rightarrow> u8 list list
   \<Rightarrow> ((js_error + (view \<times> js_string \<times> nat)) \<times> heap \<times> u8 list list) option" where
  "receive st p h [] =
     (case await_ready st of
        None \<Rightarrow> None
      | Some (Some e) \<Rightarrow> Some (Inl e, h, [])
      | Some None \<Rightarrow>
          (case new_Uint8Array h (buffer_size p) of
             (buff, h1) \<Rightarrow>
               if is_open (udpConn st) then None
               else Some (Inl (BadResource (str ''Bad resource ID'')), h1, [])))"
| "receive st p h (d # ds) =
     (case await_ready st of
        None \<Rightarrow> None
      | Some (Some e) \<Rightarrow> Some (Inl e, h, d # ds)
      | Some None \<Rightarrow>
          (case new_Uint8Array h (buffer_size p) of
             (buff, h1) \<Rightarrow>
               if is_open (udpConn st) then
                 (case udp_receive h1 buff d of
                    (res, h2) \<Rightarrow>
                      if truthy (byte_at h2 res 0) \<or> truthy (byte_at h2 res 1)
                         \<or> truthy (byte_at h2 res 2)
                      then receive st p h2 ds
                      else
                        (case fst (deserializeAddress
                                     (uint8ArrayToReader (view_bytes h2 (subarray res 3)))) of
                           Inl e \<Rightarrow> Some (Inl e, h2, ds)
                         | Inr a \<Rightarrow>
                             Some (Inr (subarray res (3 + bytesRead a), hostname a, port a),
                                   h2, ds)))
               else Some (Inl (BadResource (str ''Bad resource ID'')), h1, d # ds)))"

subsection \<open>The life of a relay\<close>

text \<open>
  \<^verbatim>\<open>listenDatagram\<close> binds the socket and runs the body of \<^verbatim>\<open>isReady\<close> at once, up
  to its first \<^verbatim>\<open>await\<close>: it calls \<^verbatim>\<open>#connectAndRequest\<close> with the command
  \<^verbatim>\<open>UdpAssociate\<close> and the address \<open>localAddr\<close> of the socket, and this calls
  \<^verbatim>\<open>Deno.connect\<close>. A session is the relay with the network \<open>net\<close> as the calls of
  \<^verbatim>\<open>Deno.connect\<close> have left it, with \<open>negotiation\<close>, what the call of
  \<^verbatim>\<open>#connectAndRequest\<close> delivers when the exchange with the proxy has ended, with
  \<open>suspended\<close>, the callers that wait at \<^verbatim>\<open>await isReady\<close>, and with \<open>resumed\<close>, the
  callers that are past the first statement of \<^verbatim>\<open>send\<close> or \<^verbatim>\<open>receive\<close>, each with
  the error that this statement threw, if it threw.

  What happens to a relay afterwards: a caller enters \<^verbatim>\<open>send\<close> or \<^verbatim>\<open>receive\<close> and
  runs \<^verbatim>\<open>if (!proxyInfo) { await isReady; }\<close>; the negotiation ends, with the
  connection and the proxy's relay address (then \<^verbatim>\<open>proxyInfo\<close> is set and the promise
  fulfilled) or with an error (then \<^verbatim>\<open>close()\<close> runs and the promise is rejected), and
  the callers that wait go on, each with the outcome of the promise; the watcher of lines
  326-335 sees the control connection end and runs \<^verbatim>\<open>close()\<close>; the owner calls
  \<^verbatim>\<open>close()\<close> of the relay, which is \<^verbatim>\<open>close(true)\<close>.
\<close>

record session = relay +
  net :: network
  negotiation :: "js_error + conn \<times> address"
  suspended :: "nat list"
  resumed :: "(nat \<times> js_error option) list"

datatype event = Call_send nat | Call_receive nat | Negotiation_done | Control_ended | Call_close

definition listenDatagram ::
  "(js_string \<Rightarrow> u8) \<Rightarrow> (js_string \<times> js_string) option \<Rightarrow> resource \<Rightarrow> js_string \<times> nat \<Rightarrow> network
   \<Rightarrow> session" where
  "listenDatagram other credentials udp localAddr nw =
     (case connectAndRequest_net other credentials UdpAssociate (fst localAddr) (snd localAddr) nw of
        (outcome, nw1) \<Rightarrow>
          \<lparr>udpConn = udp, proxyInfo = None, isReady = Pending, net = nw1, negotiation = outcome,
           suspended = [], resumed = []\<rparr>)"

definition enter :: "nat \<Rightarrow> session \<Rightarrow> session" where
  "enter caller s =
     (case await_ready (relay.truncate s) of
        None \<Rightarrow> s\<lparr>suspended := suspended s @ [caller]\<rparr>
      | Some r \<Rightarrow> s\<lparr>resumed := resumed s @ [(caller, r)]\<rparr>)"

definition run_close :: "bool \<Rightarrow> session \<Rightarrow> session" where
  "run_close throwErr s =
     (case close throwErr (relay.truncate s) of
        (x, st) \<Rightarrow> s\<lparr>udpConn := udpConn st, proxyInfo := proxyInfo st\<rparr>)"

definition settle :: "session \<Rightarrow> session" where
  "settle s =
     (if isReady s = Pending then
        (case negotiation s of
           Inr (c, a) \<Rightarrow>
             s\<lparr>proxyInfo := Some \<lparr>tcpConn = c, addr = (hostname a, port a)\<rparr>,
               isReady := Fulfilled,
               resumed := resumed s @ map (\<lambda>caller. (caller, None)) (suspended s),
               suspended := []\<rparr>
         | Inl e \<Rightarrow>
             (run_close False s)
               \<lparr>isReady := Rejected e,
                resumed := resumed s @ map (\<lambda>caller. (caller, Some e)) (suspended s),
                suspended := []\<rparr>)
      else s)"

fun step :: "session \<Rightarrow> event \<Rightarrow> session" where
  "step s (Call_send caller) = enter caller s"
| "step s (Call_receive caller) = enter caller s"
| "step s Negotiation_done = settle s"
| "step s Control_ended = (if proxyInfo s = None then s else run_close False s)"
| "step s Call_close = run_close True s"

section \<open>Notions used in the properties\<close>

text \<open>
  A datagram is dropped by \<^verbatim>\<open>receive\<close> when one of its first three bytes is not
  zero. Of a datagram \<open>d\<close> that arrives during \<^verbatim>\<open>receive(p)\<close>, \<open>received p d\<close> is
  the part that fits the buffer, \<open>filled p d\<close> the buffer afterwards and \<open>landed h p d\<close>
  the view that \<^verbatim>\<open>udpConn.receive\<close> returns. \<open>callers\<close> lists the callers of
  \<^verbatim>\<open>send\<close> and \<^verbatim>\<open>receive\<close> among events.
\<close>

definition nonzero_header :: "u8 list \<Rightarrow> bool" where
  "nonzero_header d = list_ex (\<lambda>b. b \<noteq> 0) (take 3 d)"

definition received :: "view option \<Rightarrow> u8 list \<Rightarrow> u8 list" where
  "received p d = take (buffer_size p) d"

definition filled :: "view option \<Rightarrow> u8 list \<Rightarrow> u8 list" where
  "filled p d = received p d @ replicate (buffer_size p - length (received p d)) 0"

definition landed :: "heap \<Rightarrow> view option \<Rightarrow> u8 list \<Rightarrow> view" where
  "landed h p d = \<lparr>v_buf = length h, v_off = 0, v_len = length (received p d)\<rparr>"

fun caller_of :: "event \<Rightarrow> nat list" where
  "caller_of (Call_send c) = [c]"
| "caller_of (Call_receive c) = [c]"
| "caller_of e = []"

definition callers :: "event list \<Rightarrow> nat list" where
  "callers evs = concat (map caller_of evs)"

text \<open>The relay after the events \<open>evs\<close>, in this order.\<close>

definition run :: "session \<Rightarrow> event list \<Rightarrow> session" where
  "run s evs = foldl step s evs"

text \<open>
  Of what a call delivers: the error that \<^verbatim>\<open>await\<close> throws for it, if it throws, and
  the promise once it is settled with it.
\<close>

definition thrown :: "js_error + 'a \<Rightarrow> js_error option" where
  "thrown outcome = (case outcome of Inl e \<Rightarrow> Some e | Inr x \<Rightarrow> None)"

definition settled :: "js_error + 'a \<Rightarrow> promise" where
  "settled outcome = (case outcome of Inl e \<Rightarrow> Rejected e | Inr x \<Rightarrow> Fulfilled)"

text \<open>
  The group of \<^verbatim>\<open>v4Pattern\<close> that is repeated, and the host name of four octets
  written in decimal with dots between them.
\<close>

definition octet_group :: rx where
  "octet_group = Seq (Rep 1 3 (Cls is_digit)) (Cls (\<lambda>c. c = 0x2E))"

definition dotted_quad :: "u8 \<Rightarrow> u8 \<Rightarrow> u8 \<Rightarrow> u8 \<Rightarrow> js_string" where
  "dotted_quad a b c d = join (map (\<lambda>x. String_number (unat x)) [a, b, c, d]) (str ''.'')"

text \<open>A host name of ASCII characters only.\<close>

definition ascii :: "js_string \<Rightarrow> bool" where
  "ascii s = list_all (\<lambda>u. u < 0x80) s"

section \<open>Example states\<close>

text \<open>
  A relay whose datagram socket is closed already and whose control connection the
  platform refuses to close; a connection on which the proxy sends the given chunks; a
  relay that is ready; a datagram from 1.2.3.4, port 80, with the payload 07 07; an open
  socket; a network in which every connection reaches a proxy that accepts none of the
  methods offered.
\<close>

definition relay_both_faulty :: relay where
  "relay_both_faulty =
     \<lparr>udpConn = \<lparr>is_open = False, close_calls = 0, close_fault = None\<rparr>,
      proxyInfo = Some \<lparr>tcpConn = \<lparr>incoming = Stream [], outgoing = [],
                                   sock = \<lparr>is_open = True, close_calls = 0,
                                           close_fault = Some (Error (str ''reset''))\<rparr>\<rparr>,
                        addr = (str ''127.0.0.1'', 2080)\<rparr>,
      isReady = Fulfilled\<rparr>"

definition refusing_conn :: "u8 list list \<Rightarrow> conn" where
  "refusing_conn chunks =
     \<lparr>incoming = Stream chunks, outgoing = [],
      sock = \<lparr>is_open = True, close_calls = 0, close_fault = None\<rparr>\<rparr>"

definition ready_relay :: relay where
  "ready_relay =
     \<lparr>udpConn = \<lparr>is_open = True, close_calls = 0, close_fault = None\<rparr>,
      proxyInfo = Some \<lparr>tcpConn = \<lparr>incoming = Stream [], outgoing = [],
                                   sock = \<lparr>is_open = True, close_calls = 0, close_fault = None\<rparr>\<rparr>,
                        addr = (str ''127.0.0.1'', 2080)\<rparr>,
      isReady = Fulfilled\<rparr>"

definition datagram_1_2_3_4 :: "u8 list" where
  "datagram_1_2_3_4 = [0, 0, 0, 1, 1, 2, 3, 4, 0, 80, 7, 7]"

definition open_socket :: resource where
  "open_socket = \<lparr>is_open = True, close_calls = 0, close_fault = None\<rparr>"

definition refusing_network :: network where
  "refusing_network =
     \<lparr>answers = (\<lambda>k. Inr (refusing_conn [[5, 255]])), connect_calls = 0, lost = []\<rparr>"

chapter \<open>Properties\<close>

section \<open>Reply status messages\<close>

lemma status_1_to_8:
  fixes s :: u8
  assumes "1 \<le> s" and "s \<le> 8"
  shows "s \<in> {1, 2, 3, 4, 5, 6, 7, 8}"
proof -
  define v where "v = unat s"
  have s: "s = of_nat v" by (simp add: v_def)
  from assms have "1 \<le> v" and "v \<le> 8" by (simp_all add: word_le_nat_alt v_def)
  then have "v \<in> {1, 2, 3, 4, 5, 6, 7, 8}" by auto
  then have "of_nat v \<in> (of_nat ` {1, 2, 3, 4, 5, 6, 7, 8} :: u8 set)" by (rule imageI)
  then show ?thesis by (simp add: s)
qed

lemma decodeError_specific:
  "decodeError 1 = str ''general SOCKS server failure''"
  "decodeError 2 = str ''connection not allowed by ruleset''"
  "decodeError 3 = str ''Network unreachable''"
  "decodeError 4 = str ''Host unreachable''"
  "decodeError 5 = str ''Connection refused''"
  "decodeError 6 = str ''TTL expired''"
  "decodeError 7 = str ''Command not supported''"
  "decodeError 8 = str ''Address type not supported''"
  by (simp_all add: decodeError_def)

lemma decodeError_default:
  fixes s :: u8
  assumes "s = 0 \<or> 8 < s"
  shows "decodeError s = str ''unknown SOCKS error''"
proof -
  from assms have "s \<noteq> 1" "s \<noteq> 2" "s \<noteq> 3" "s \<noteq> 4" "s \<noteq> 5" "s \<noteq> 6" "s \<noteq> 7" "s \<noteq> 8"
    by auto
  then show ?thesis by (simp add: decodeError_def)
qed

text \<open>
  C8, as stated, fails at status 0: the table's entry is Success, but \<open>decodeError\<close> has no
  case for it and answers with the generic message, the one it gives for 9.
\<close>

theorem decodeError_success_counterexample:
  "decodeError 0 = str ''unknown SOCKS error''
   \<and> decodeError 0 = decodeError 9
   \<and> message_entry (decodeError 0) = Some Tbl_UnknownProxyError
   \<and> status_table 0 = Tbl_Success
   \<and> message_entry (decodeError 0) \<noteq> Some (status_table 0)"
  by (simp add: decodeError_def message_entry_def status_table_def str_def)

text \<open>
  C8, amended: for the eight status codes 1 to 8 the message stands for the entry of the
  status table, the messages are the ones the tests expect, and every other status byte
  (0, and 9 to 255) gets the one generic message.
\<close>

theorem decodeError_table:
  "(\<forall>s. 1 \<le> s \<and> s \<le> 8 \<longrightarrow> message_entry (decodeError s) = Some (status_table s))
   \<and> (\<forall>s. s = 0 \<or> 8 < s \<longrightarrow> decodeError s = str ''unknown SOCKS error'')
   \<and> list_all (\<lambda>(s, m). decodeError s = m) request_failed_cases"
proof (intro conjI allI impI)
  fix s :: u8
  assume "1 \<le> s \<and> s \<le> 8"
  then have "s \<in> {1, 2, 3, 4, 5, 6, 7, 8}" using status_1_to_8 [of s] by blast
  then show "message_entry (decodeError s) = Some (status_table s)"
    by (auto simp add: decodeError_def message_entry_def status_table_def str_def)
next
  fix s :: u8
  assume "s = 0 \<or> 8 < s"
  then show "decodeError s = str ''unknown SOCKS error''" by (rule decodeError_default)
next
  show "list_all (\<lambda>(s, m). decodeError s = m) request_failed_cases"
    by (simp add: request_failed_cases_def decodeError_def)
qed

theorem decodeError_table_witness:
  "message_entry (decodeError 3) = Some Tbl_NetworkUnreachable
   \<and> decodeError 200 = str ''unknown SOCKS error''"
proof -
  have a: "(1::u8) \<le> 3 \<and> (3::u8) \<le> 8" by simp
  have b: "(200::u8) = 0 \<or> (8::u8) < 200" by simp
  from decodeError_table a have "message_entry (decodeError 3) = Some (status_table 3)" by blast
  moreover from decodeError_table b have "decodeError 200 = str ''unknown SOCKS error''" by blast
  ultimately show ?thesis by (simp add: status_table_def)
qed


section \<open>Reading exactly n bytes\<close>

lemma reader_read_None: "reader_read r k = None \<Longrightarrow> remaining r = []"
  by (induction r k rule: reader_read.induct) (auto split: if_splits simp: Let_def)

lemma reader_read_Some:
  assumes "reader_read r k = Some (m, r')"
  shows "length m \<le> k" and "m = take (length m) (remaining r)"
    and "remaining r' = drop (length m) (remaining r)"
    and "length m \<le> length (remaining r)"
  using assms
  by (induction r k rule: reader_read.induct)
     (auto split: if_splits simp: Let_def min_def add.commute)

lemma length_set_at: "off + length src \<le> length out \<Longrightarrow> length (set_at out off src) = length out"
  by (simp add: set_at_def)

lemma take_set_at:
  "off \<le> length out \<Longrightarrow> take (off + length src) (set_at out off src) = take off out @ src"
  by (simp add: set_at_def)

text \<open>
  The loop, from any of its states: when the reader holds the bytes that are still missing,
  the buffer ends as what was read so far followed by the next bytes of the stream.
\<close>

lemma readN_loop_enough:
  assumes "nRead \<le> n" and "length out = n" and "n - nRead \<le> length (remaining r)"
  shows "fst (readN_loop r n nRead out) = Inr (take nRead out @ take (n - nRead) (remaining r))
         \<and> remaining (snd (readN_loop r n nRead out)) = drop (n - nRead) (remaining r)"
  using assms
proof (induction r n nRead out rule: readN_loop.induct)
  case (1 reader n nRead out)
  show ?case
  proof (cases "nRead < n")
    case False
    then have "readN_loop reader n nRead out = (Inr out, reader)"
      by (subst readN_loop.simps) simp
    with False 1 show ?thesis by simp
  next
    case True
    show ?thesis
    proof (cases "reader_read reader (n - nRead)")
      case None
      then have "remaining reader = []" by (rule reader_read_None)
      with True 1 show ?thesis by simp
    next
      case (Some p)
      obtain m r' where p: "p = (m, r')" by (cases p)
      note rd = Some [unfolded p]
      note facts = reader_read_Some [OF rd]
      have len: "nRead + length m \<le> n" using facts(1) True by simp
      have out': "length (set_at out nRead m) = n" using len 1 by (simp add: length_set_at)
      have enough: "n - (nRead + length m) \<le> length (remaining r')"
        using facts(3) 1 by simp
      let ?next = "readN_loop r' n (nRead + length m) (set_at out nRead m)"
      from "1.IH" [OF True rd refl len out' enough]
      have res: "fst ?next = Inr (take (nRead + length m) (set_at out nRead m)
                        @ take (n - (nRead + length m)) (remaining r'))"
        and rem: "remaining (snd ?next) = drop (n - (nRead + length m)) (remaining r')"
        by simp_all
      have tk: "take (nRead + length m) (set_at out nRead m) = take nRead out @ m"
        using 1 True by (simp add: take_set_at)
      have "m @ take (n - (nRead + length m)) (remaining r') = take (n - nRead) (remaining reader)"
      proof -
        have "take (n - nRead) (remaining reader)
              = take (length m + (n - (nRead + length m))) (remaining reader)"
          using len by simp
        also have "\<dots> = take (length m) (remaining reader)
                          @ take (n - (nRead + length m)) (drop (length m) (remaining reader))"
          by (rule take_add)
        finally show ?thesis using facts(2,3) by simp
      qed
      then have bytes: "take (nRead + length m) (set_at out nRead m)
                   @ take (n - (nRead + length m)) (remaining r')
                 = take nRead out @ take (n - nRead) (remaining reader)"
        using tk by simp
      have rem': "remaining (snd ?next) = drop (n - nRead) (remaining reader)"
        using rem facts(3) len by (simp add: add.commute)
      have "readN_loop reader n nRead out = ?next"
        using True rd by (subst readN_loop.simps) simp
      with res bytes rem' show ?thesis by simp
    qed
  qed
qed

text \<open>When the reader holds fewer bytes than are missing, the loop ends in the error.\<close>

lemma readN_loop_short:
  assumes "nRead \<le> n" and "length (remaining r) < n - nRead"
  shows "fst (readN_loop r n nRead out)
           = Inl (UnexpectedEof (eof_message (n - nRead - length (remaining r))))
         \<and> remaining (snd (readN_loop r n nRead out)) = []"
  using assms
proof (induction r n nRead out rule: readN_loop.induct)
  case (1 reader n nRead out)
  from 1 have lt: "nRead < n" by simp
  show ?case
  proof (cases "reader_read reader (n - nRead)")
    case None
    then have rem: "remaining reader = []" by (rule reader_read_None)
    have "readN_loop reader n nRead out = (Inl (UnexpectedEof (eof_message (n - nRead))), reader)"
      using lt None by (subst readN_loop.simps) simp
    with rem show ?thesis by simp
  next
    case (Some p)
    obtain m r' where p: "p = (m, r')" by (cases p)
    note rd = Some [unfolded p]
    note facts = reader_read_Some [OF rd]
    have lm: "length m \<le> length (remaining reader)"
      by (rule facts(4))
    have len: "nRead + length m \<le> n" using facts(1) lt by simp
    have short: "length (remaining r') < n - (nRead + length m)"
      using facts(3) 1 lm by simp
    let ?next = "readN_loop r' n (nRead + length m) (set_at out nRead m)"
    have step: "readN_loop reader n nRead out = ?next"
      using lt rd by (subst readN_loop.simps) simp
    have same: "n - (nRead + length m) - length (remaining r') = n - nRead - length (remaining reader)"
      using facts(3) lm by simp
    from "1.IH" [OF lt rd refl len short] show ?thesis
      unfolding step same .
  qed
qed

lemma readN_enough:
  assumes "n \<le> length (remaining r)"
  shows "fst (readN r n) = Inr (take n (remaining r))"
    and "remaining (snd (readN r n)) = drop n (remaining r)"
  using readN_loop_enough [of 0 n "replicate n 0" r] assms by (simp_all add: readN_def)

lemma readN_short:
  assumes "length (remaining r) < n"
  shows "fst (readN r n) = Inl (UnexpectedEof (eof_message (n - length (remaining r))))"
    and "remaining (snd (readN r n)) = []"
  using readN_loop_short [of 0 n r "replicate n 0"] assms by (simp_all add: readN_def)

lemma readN_cases:
  "fst (readN r n) = Inr out \<Longrightarrow> n \<le> length (remaining r) \<and> out = take n (remaining r)"
  using readN_enough [of n r] readN_short [of r n]
  by (cases "n \<le> length (remaining r)") auto

text \<open>
  C6: \<open>readN\<close> returns a buffer of exactly \<open>n\<close> bytes, the next \<open>n\<close> bytes of the stream
  however the reads cut them, and leaves the rest in the reader; when the stream ends
  before, it throws \<^verbatim>\<open>UnexpectedEof\<close>, with the number of bytes that were missing; a
  successful result never has fewer than \<open>n\<close> bytes.
\<close>

theorem readN_exact:
  "(n \<le> length (remaining r) \<longrightarrow>
      fst (readN r n) = Inr (take n (remaining r))
      \<and> remaining (snd (readN r n)) = drop n (remaining r))
   \<and> (length (remaining r) < n \<longrightarrow>
      fst (readN r n) = Inl (UnexpectedEof (eof_message (n - length (remaining r)))))
   \<and> (\<forall>out. fst (readN r n) = Inr out \<longrightarrow> length out = n \<and> out = take n (remaining r))"
proof (intro conjI impI allI)
  assume "n \<le> length (remaining r)"
  then show "fst (readN r n) = Inr (take n (remaining r))"
    and "remaining (snd (readN r n)) = drop n (remaining r)"
    by (rule readN_enough)+
next
  assume "length (remaining r) < n"
  then show "fst (readN r n) = Inl (UnexpectedEof (eof_message (n - length (remaining r))))"
    by (rule readN_short)
next
  fix out
  assume "fst (readN r n) = Inr out"
  from readN_cases [OF this] show "length out = n" by simp
next
  fix out
  assume "fst (readN r n) = Inr out"
  from readN_cases [OF this] show "out = take n (remaining r)" by simp
qed

theorem readN_exact_witness:
  "fst (readN (Stream [[1, 2], [], [3, 4, 5]]) 4) = Inr [1, 2, 3, 4]
   \<and> remaining (snd (readN (Stream [[1, 2], [], [3, 4, 5]]) 4)) = [5]
   \<and> fst (readN (Stream [[1, 2], [], [3, 4, 5]]) 7) = Inl (UnexpectedEof (eof_message 2))"
proof -
  let ?r = "Stream [[1, 2], [], [3, 4, 5]]"
  have enough: "4 \<le> length (remaining ?r)" and short: "length (remaining ?r) < 7" by simp_all
  from readN_exact [of 4 ?r, THEN conjunct1, rule_format, OF enough]
  have "fst (readN ?r 4) = Inr [1, 2, 3, 4]" and "remaining (snd (readN ?r 4)) = [5]"
    by simp_all
  moreover from readN_exact [of 7 ?r, THEN conjunct2, THEN conjunct1, rule_format, OF short]
  have "fst (readN ?r 7) = Inl (UnexpectedEof (eof_message 2))" by simp
  ultimately show ?thesis by simp
qed

section \<open>The address codec\<close>

lemma readN_ArrayReader:
  assumes "offset + n \<le> length arr"
  shows "readN (ArrayReader arr offset) n
         = (Inr (take n (drop offset arr)), ArrayReader arr (offset + n))"
proof (cases "n = 0")
  case True
  have "readN_loop (ArrayReader arr offset) 0 0 [] = (Inr [], ArrayReader arr offset)"
    by (subst readN_loop.simps) simp
  with True show ?thesis by (simp add: readN_def)
next
  case False
  with assms have rd: "reader_read (ArrayReader arr offset) n
      = Some (take n (drop offset arr), ArrayReader arr (offset + n))"
    by (simp add: min_def)
  have len: "length (take n (drop offset arr)) = n" using assms by simp
  have "readN (ArrayReader arr offset) n
        = readN_loop (ArrayReader arr (offset + n)) n n
            (set_at (replicate n 0) 0 (take n (drop offset arr)))"
    unfolding readN_def using False rd len by (subst readN_loop.simps) simp
  also have "\<dots> = (Inr (set_at (replicate n 0) 0 (take n (drop offset arr))),
                         ArrayReader arr (offset + n))"
    by (subst readN_loop.simps) simp
  also have "set_at (replicate n 0) 0 (take n (drop offset arr)) = take n (drop offset arr)"
    using len by (simp add: set_at_def)
  finally show ?thesis .
qed

subsection \<open>IPv6 addresses\<close>

text \<open>
  The IPv6 address of client\_test.ts (lines 32-42): the host name, the port 5678 and the
  19 bytes the test expects on the wire.
\<close>

lemma ipv6_example_encoded:
  "serializeAddress other (str ''102:304:506:708:90a:b0c:d0e:f10'') 5678
   = [4, 1, 2, 3, 4, 5, 6, 7, 8, 9, 10, 11, 12, 13, 14, 15, 16, 22, 46]"
  by code_simp

lemma ipv6_example_decoded:
  "deserializeAddress
     (uint8ArrayToReader [4, 1, 2, 3, 4, 5, 6, 7, 8, 9, 10, 11, 12, 13, 14, 15, 16, 22, 46])
   = (Inr \<lparr>hostname = str ''258:772:1286:1800:2314:2828:3342:3856'', port = 5678,
             bytesRead = 19\<rparr>,
      ArrayReader [4, 1, 2, 3, 4, 5, 6, 7, 8, 9, 10, 11, 12, 13, 14, 15, 16, 22, 46] 19)"
  by (simp add: deserializeAddress_def deserializeHost_def uint8ArrayToReader_def
        readN_ArrayReader String_number.simps str_def)

text \<open>
  C1 (the round trip of the address codec) fails on the code for IPv6. The encoder reads
  each group of the host name as hexadecimal, the decoder writes each group with
  \<^verbatim>\<open>String\<close>, in decimal: the host \<^verbatim>\<open>102:304:506:708:90a:b0c:d0e:f10\<close> of the tests
  comes back as \<^verbatim>\<open>258:772:1286:1800:2314:2828:3342:3856\<close>.
\<close>

theorem ipv6_round_trip_decimal:
  "deserializeAddress
     (uint8ArrayToReader (serializeAddress other (str ''102:304:506:708:90a:b0c:d0e:f10'') 5678))
   = (Inr \<lparr>hostname = str ''258:772:1286:1800:2314:2828:3342:3856'', port = 5678,
             bytesRead = 19\<rparr>,
      ArrayReader [4, 1, 2, 3, 4, 5, 6, 7, 8, 9, 10, 11, 12, 13, 14, 15, 16, 22, 46] 19)"
  by (simp only: ipv6_example_encoded ipv6_example_decoded)

subsection \<open>Domain names\<close>

lemma TextEncoder_encode_ascii:
  "list_all (\<lambda>u. u < 0x80) s \<Longrightarrow> TextEncoder_encode s = map (\<lambda>u. of_nat (unat u)) s"
  by (induction s rule: TextEncoder_encode.induct)
     (auto simp: is_high_surrogate_def is_low_surrogate_def utf8_code_point_def word_less_nat_alt
                 word_le_nat_alt)

lemma not_v4_x: "\<not> v4Pattern_test (0x78 # rest)"
  by code_simp

lemma not_v6_x: "\<not> v6Pattern_test (0x78 # rest)"
  by code_simp

lemma long_host_encoded:
  "serializeAddress other (replicate 256 0x78) 80 = [3, 0] @ replicate 256 0x78 @ [0, 80]"
  "length (TextEncoder_encode (replicate 256 0x78)) = 256"
proof -
  have r: "replicate 256 (0x78 :: u16) = 0x78 # replicate 255 0x78"
    by (simp add: replicate_Suc [symmetric] del: replicate_Suc)
  have enc: "TextEncoder_encode (replicate 256 0x78) = replicate 256 0x78"
    by (subst TextEncoder_encode_ascii) (simp_all add: list_all_length)
  have "\<not> v4Pattern_test (replicate 256 0x78)" "\<not> v6Pattern_test (replicate 256 0x78)"
    unfolding r by (rule not_v4_x, rule not_v6_x)
  then show "serializeAddress other (replicate 256 0x78) 80 = [3, 0] @ replicate 256 0x78 @ [0, 80]"
    by (simp add: serializeAddress_def enc portBytes_def ToUint8_def)
  show "length (TextEncoder_encode (replicate 256 0x78)) = 256"
    by (simp add: enc)
qed

text \<open>
  C2, as stated, fails: \<open>serializeAddress\<close> has no check of the length and no error. For
  a host name of 256 letters \<^verbatim>\<open>x\<close> (a domain name, 256 bytes in UTF-8) it returns
  bytes, and the length byte is 0.
\<close>

theorem long_domain_counterexample:
  "serializeAddress (\<lambda>s. 0) (replicate 256 0x78) 80 = [3, 0] @ replicate 256 0x78 @ [0, 80]
   \<and> length (TextEncoder_encode (replicate 256 0x78)) = 256"
  by (simp only: long_host_encoded)

text \<open>
  C2, amended: for every host name that matches neither pattern, whatever its length,
  \<open>serializeAddress\<close> returns bytes: the type 3, one byte that holds the length of the
  UTF-8 encoding modulo 256, every byte of the encoding (none is cut off), and the two
  bytes of the port.
\<close>

theorem serializeAddress_domain:
  assumes "\<not> v4Pattern_test host" and "\<not> v6Pattern_test host"
  shows "serializeAddress other host prt
           = [3, of_nat (length (TextEncoder_encode host) mod 256)]
             @ TextEncoder_encode host @ portBytes prt
         \<and> length (serializeAddress other host prt) = length (TextEncoder_encode host) + 4
         \<and> take (length (TextEncoder_encode host)) (drop 2 (serializeAddress other host prt))
             = TextEncoder_encode host
         \<and> unat (serializeAddress other host prt ! 1) = length (TextEncoder_encode host) mod 256"
  using assms
  by (simp add: serializeAddress_def Let_def ToUint8_def portBytes_def unat_of_nat)

lemma example_com:
  "\<not> v4Pattern_test (str ''example.com'')" "\<not> v6Pattern_test (str ''example.com'')"
  "TextEncoder_encode (str ''example.com'') = [101, 120, 97, 109, 112, 108, 101, 46, 99, 111, 109]"
  "portBytes 3106 = [12, 34]"
  by code_simp+

theorem serializeAddress_domain_witness:
  "serializeAddress (\<lambda>s. 0) (str ''example.com'') 3106
     = [3, 11, 101, 120, 97, 109, 112, 108, 101, 46, 99, 111, 109, 12, 34]"
  using serializeAddress_domain [of "str ''example.com''" "\<lambda>s. 0" 3106]
  by (simp add: example_com)

subsection \<open>IPv4 addresses\<close>

text \<open>
  C3 fails on the code. \<^verbatim>\<open>v4Pattern\<close> has no \<^verbatim>\<open>$\<close> (\<^verbatim>\<open>v6Pattern\<close> has one), so
  that a host name such as \<^verbatim>\<open>1.2.3.4.5\<close> matches, and each of its five parts becomes
  an address byte: the output has five address bytes between the type and the port.
\<close>

theorem v4_five_parts:
  "v4Pattern_test (str ''1.2.3.4.5'')
   \<and> serializeAddress other (str ''1.2.3.4.5'') 80 = [1, 1, 2, 3, 4, 5, 0, 80]"
  by code_simp


section \<open>Closing a relay\<close>

text \<open>
  C4, as stated, fails when both attempts throw: the second \<^verbatim>\<open>catch\<close> overwrites
  \<^verbatim>\<open>err\<close>, and \<^verbatim>\<open>close(true)\<close> throws the error of the datagram socket, the last one
  met, not the one of the control connection, which was met first.
\<close>

theorem close_last_error_counterexample:
  "fst (resource_close (sock (tcpConn (the (proxyInfo relay_both_faulty))))) = Some (Error (str ''reset''))
   \<and> fst (resource_close (udpConn relay_both_faulty)) = Some (BadResource (str ''Bad resource ID''))
   \<and> fst (close True relay_both_faulty) = Some (BadResource (str ''Bad resource ID''))
   \<and> fst (close True relay_both_faulty) \<noteq> Some (Error (str ''reset''))"
  by (simp add: relay_both_faulty_def close_def resource_close_def str_def)

lemma close_calls_resource_close: "close_calls (snd (resource_close r)) = close_calls r + 1"
  by (simp add: resource_close_def Let_def split: option.splits)

lemma close_with_proxy:
  assumes "proxyInfo st = Some info"
  shows "close throwErr st =
           (if throwErr then
              (case fst (resource_close (udpConn st)) of
                 Some e \<Rightarrow> Some e
               | None \<Rightarrow> fst (resource_close (sock (tcpConn info))))
            else None,
            st\<lparr>proxyInfo :=
                  Some (info\<lparr>tcpConn := (tcpConn info)\<lparr>sock := snd (resource_close (sock (tcpConn info)))\<rparr>\<rparr>),
               udpConn := snd (resource_close (udpConn st))\<rparr>)"
  using assms by (simp add: close_def Let_def case_prod_beta split: option.split)

text \<open>
  C4, amended: when the relay has its control connection, \<^verbatim>\<open>close\<close> calls
  \<^verbatim>\<open>close()\<close> once on the control connection and once on the datagram socket,
  whatever the first call does; \<^verbatim>\<open>close(true)\<close> then throws the error of the datagram
  socket if that call threw, otherwise the error of the control connection if that call
  threw, and nothing otherwise; \<^verbatim>\<open>close(false)\<close>, the cleanup, throws nothing.
\<close>

theorem close_attempts_both:
  assumes "proxyInfo st = Some info"
  shows "(\<exists>info'. proxyInfo (snd (close throwErr st)) = Some info'
            \<and> sock (tcpConn info') = snd (resource_close (sock (tcpConn info)))
            \<and> close_calls (sock (tcpConn info')) = close_calls (sock (tcpConn info)) + 1)
         \<and> udpConn (snd (close throwErr st)) = snd (resource_close (udpConn st))
         \<and> close_calls (udpConn (snd (close throwErr st))) = close_calls (udpConn st) + 1
         \<and> fst (close True st)
             = (case fst (resource_close (udpConn st)) of
                  Some e \<Rightarrow> Some e
                | None \<Rightarrow> fst (resource_close (sock (tcpConn info))))
         \<and> fst (close False st) = None"
  by (simp add: close_with_proxy [OF assms] close_calls_resource_close)

theorem close_attempts_both_witness:
  "udpConn (snd (close True relay_both_faulty))
     = \<lparr>is_open = False, close_calls = 1, close_fault = None\<rparr>
   \<and> fst (close True relay_both_faulty) = Some (BadResource (str ''Bad resource ID''))"
  using close_attempts_both [of relay_both_faulty "the (proxyInfo relay_both_faulty)" True]
  by (simp add: relay_both_faulty_def resource_close_def)

section \<open>Failure of the negotiation\<close>

lemma conn_readN_enough:
  assumes "n \<le> length (remaining (incoming c))"
  shows "conn_readN c n
         = (Inr (take n (remaining (incoming c))), c\<lparr>incoming := snd (readN (incoming c) n)\<rparr>)"
  using readN_enough(1) [OF assms] by (simp add: conn_readN_def case_prod_beta)

lemma incoming_writeAll: "incoming (writeAll c bytes) = incoming c"
  and sock_writeAll: "sock (writeAll c bytes) = sock c"
  and outgoing_writeAll: "outgoing (writeAll c bytes) = outgoing c @ [bytes]"
  by (simp_all add: writeAll_def)

text \<open>
  C7: when the two bytes of the reply to the method negotiation arrive and the version is
  not 5, \<open>connectAndRequest\<close> throws the error of the unsupported version, with the
  version the server sent; when the version is 5 and the method is 0xFF, it throws the
  error of no acceptable method. In both cases \<^verbatim>\<open>close()\<close> was called once on the
  connection before, whatever it threw is dropped (the error thrown is the same), the
  connection is closed when the platform closes it, and no connection is returned.
\<close>

theorem negotiation_failure:
  assumes reply: "take 2 (remaining (incoming conn0)) = [v, m]"
    and refused: "v \<noteq> 5 \<or> m = 0xFF"
  shows "fst (connectAndRequest other credentials cmd host prt conn0)
           = Inl (Error (if v \<noteq> 5
                         then str ''unsupported SOCKS version number: '' @ String_number (unat v)
                         else str ''no acceptable authentication methods''))
         \<and> sock (snd (connectAndRequest other credentials cmd host prt conn0))
             = snd (resource_close (sock conn0))
         \<and> close_calls (sock (snd (connectAndRequest other credentials cmd host prt conn0)))
             = close_calls (sock conn0) + 1
         \<and> (is_open (sock conn0) \<and> close_fault (sock conn0) = None \<longrightarrow>
              \<not> is_open (sock (snd (connectAndRequest other credentials cmd host prt conn0))))
         \<and> length (outgoing (snd (connectAndRequest other credentials cmd host prt conn0)))
             = length (outgoing conn0) + 1"
proof -
  have len: "2 \<le> length (remaining (incoming conn0))"
    using arg_cong [OF reply, of length] by simp
  let ?methods = "[AuthMethod_value NoAuth]
                    @ (if credentials = None then [] else [AuthMethod_value UsernamePassword])"
  let ?c1 = "writeAll conn0 ([SOCKS_VERSION, ToUint8 (length ?methods)] @ ?methods)"
  have rd: "conn_readN ?c1 2 = (Inr [v, m], ?c1\<lparr>incoming := snd (readN (incoming conn0) 2)\<rparr>)"
    using conn_readN_enough [of 2 ?c1] len reply by (simp add: incoming_writeAll)
  let ?c2 = "?c1\<lparr>incoming := snd (readN (incoming conn0) 2)\<rparr>"
  have res: "connectAndRequest other credentials cmd host prt conn0
        = (Inl (Error (if v \<noteq> 5
                         then str ''unsupported SOCKS version number: '' @ String_number (unat v)
                         else str ''no acceptable authentication methods'')),
           close_ignoring ?c2)"
    using refused unfolding connectAndRequest_def Let_def rd
    by (auto simp add: SOCKS_VERSION_def)
  show ?thesis
    unfolding res
    by (simp add: close_ignoring_def writeAll_def resource_close_def Let_def split: option.split)
qed

theorem negotiation_failure_witness:
  "fst (connectAndRequest (\<lambda>s. 0) None Connect (str ''1.2.3.4'') 1234 (refusing_conn [[4], [0]]))
     = Inl (Error (str ''unsupported SOCKS version number: 4''))
   \<and> sock (snd (connectAndRequest (\<lambda>s. 0) None Connect (str ''1.2.3.4'') 1234 (refusing_conn [[4], [0]])))
     = \<lparr>is_open = False, close_calls = 1, close_fault = None\<rparr>
   \<and> fst (connectAndRequest (\<lambda>s. 0) None Connect (str ''1.2.3.4'') 1234 (refusing_conn [[5, 255]]))
     = Inl (Error (str ''no acceptable authentication methods''))"
proof -
  have a: "take 2 (remaining (incoming (refusing_conn [[4], [0]]))) = [4, 0]"
    and b: "take 2 (remaining (incoming (refusing_conn [[5, 255]]))) = [5, 255]"
    by (simp_all add: refusing_conn_def)
  have a': "(4::u8) \<noteq> 5 \<or> (0::u8) = 0xFF" and b': "(5::u8) \<noteq> 5 \<or> (255::u8) = 0xFF" by simp_all
  show ?thesis
    using negotiation_failure [OF a a', of "\<lambda>s. 0" None Connect "str ''1.2.3.4''" 1234]
          negotiation_failure [OF b b', of "\<lambda>s. 0" None Connect "str ''1.2.3.4''" 1234]
    by (simp add: refusing_conn_def resource_close_def String_number.simps str_def)
qed


section \<open>Receiving a datagram\<close>

lemma buffer_size_ge: "1024 \<le> buffer_size p"
  by (simp add: buffer_size_def split: option.split)

lemma length_filled: "length (filled p d) = buffer_size p"
  by (simp add: filled_def received_def)

lemma udp_receive_fresh:
  "udp_receive (h @ [replicate (buffer_size p) 0])
      \<lparr>v_buf = length h, v_off = 0, v_len = buffer_size p\<rparr> d
   = (landed h p d, h @ [filled p d])"
  by (simp add: udp_receive_def Let_def landed_def filled_def received_def set_at_def min_def)

lemma view_bytes_landed:
  "view_bytes (h @ [filled p d]) (subarray (landed h p d) b) = drop b (received p d)"
  by (simp add: view_bytes_def subarray_def landed_def filled_def Let_def min_def)

lemma byte_at_landed:
  "byte_at (h @ [filled p d]) (landed h p d) i
   = (if i < length (received p d) then Some (received p d ! i) else None)"
  by (simp add: byte_at_def landed_def filled_def nth_append)

lemma header_test:
  "(truthy (byte_at (h @ [filled p d]) (landed h p d) 0)
    \<or> truthy (byte_at (h @ [filled p d]) (landed h p d) 1)
    \<or> truthy (byte_at (h @ [filled p d]) (landed h p d) 2))
   = nonzero_header (received p d)"
proof (cases "received p d")
  case Nil
  then show ?thesis by (simp add: byte_at_landed truthy_def nonzero_header_def)
next
  case (Cons a x)
  show ?thesis
  proof (cases x)
    case Nil
    with Cons show ?thesis by (simp add: byte_at_landed truthy_def nonzero_header_def)
  next
    case (Cons b y)
    note x = this
    show ?thesis
    proof (cases y)
      case Nil
      with x \<open>received p d = a # x\<close> show ?thesis
        by (simp add: byte_at_landed truthy_def nonzero_header_def)
    next
      case (Cons c z)
      with x \<open>received p d = a # x\<close> show ?thesis
        by (simp add: byte_at_landed truthy_def nonzero_header_def)
    qed
  qed
qed

lemma nonzero_header_received: "nonzero_header (received p d) = nonzero_header d"
proof -
  have "take 3 (take (buffer_size p) d) = take 3 d"
    using buffer_size_ge [of p] by (simp add: min_def)
  then show ?thesis by (simp add: nonzero_header_def received_def)
qed

lemma receive_datagram:
  assumes "await_ready st = Some None" and "is_open (udpConn st)"
  shows "receive st p h (d # ds) =
           (if nonzero_header d then receive st p (h @ [filled p d]) ds
            else (case fst (deserializeAddress (uint8ArrayToReader (drop 3 (received p d)))) of
                    Inl e \<Rightarrow> Some (Inl e, h @ [filled p d], ds)
                  | Inr a \<Rightarrow>
                      Some (Inr (subarray (landed h p d) (3 + bytesRead a), hostname a, port a),
                            h @ [filled p d], ds)))"
  using assms header_test [of h p d]
  by (simp add: new_Uint8Array_def udp_receive_fresh nonzero_header_received view_bytes_landed)


lemma receive_skips:
  assumes "await_ready st = Some None" and "is_open (udpConn st)"
    and "list_all nonzero_header bad"
  shows "\<exists>h'. receive st p h (bad @ q) = receive st p h' q
              \<and> length h' = length h + length bad \<and> take (length h) h' = h"
  using assms(3)
proof (induction bad arbitrary: h)
  case Nil
  have "receive st p h ([] @ q) = receive st p h q \<and> length h = length h + length ([] :: u8 list list)
        \<and> take (length h) h = h" by simp
  then show ?case by blast
next
  case (Cons b bad)
  then have b: "nonzero_header b" and rest: "list_all nonzero_header bad" by simp_all
  from Cons.IH [OF rest, of "h @ [filled p b]"]
  obtain h' where h': "receive st p (h @ [filled p b]) (bad @ q) = receive st p h' q"
    "length h' = length (h @ [filled p b]) + length bad"
    "take (length (h @ [filled p b])) h' = h @ [filled p b]"
    by blast
  have "receive st p h ((b # bad) @ q) = receive st p h' q"
    using receive_datagram [OF assms(1,2), of p h b "bad @ q"] b h'(1) by simp
  moreover have "take (length h) h' = h"
  proof -
    have "take (length h) h' = take (length h) (take (length (h @ [filled p b])) h')"
      by (simp add: min_def)
    also have "\<dots> = h" unfolding h'(3) by simp
    finally show ?thesis .
  qed
  ultimately show ?case using h'(2) by auto
qed

lemma ready_relay_ready: "await_ready ready_relay = Some None" "is_open (udpConn ready_relay)"
  by (simp_all add: ready_relay_def await_ready_def)

lemma ipv4_example_decoded:
  "fst (deserializeAddress (uint8ArrayToReader [1, 1, 2, 3, 4, 0, 80, 7, 7]))
   = Inr \<lparr>hostname = str ''1.2.3.4'', port = 80, bytesRead = 7\<rparr>"
  by (simp add: deserializeAddress_def deserializeHost_def uint8ArrayToReader_def
        readN_ArrayReader String_number.simps str_def)

lemma receive_valid:
  assumes ready: "await_ready st = Some None" and "is_open (udpConn st)"
    and bad: "list_all nonzero_header bad"
    and good: "take 3 d = [0, 0, 0]"
    and decoded: "fst (deserializeAddress (uint8ArrayToReader (drop 3 (take (buffer_size p) d))))
                  = Inr a"
  shows "\<exists>payload h'.
           receive st p h (bad @ d # rest) = Some (Inr (payload, hostname a, port a), h', rest)
           \<and> view_bytes h' payload = drop (3 + bytesRead a) (take (buffer_size p) d)"
proof -
  from receive_skips [OF assms(1,2) bad, of p h "d # rest"]
  obtain h1 where h1: "receive st p h (bad @ d # rest) = receive st p h1 (d # rest)" by blast
  have "\<not> nonzero_header d" using good by (simp add: nonzero_header_def)
  with receive_datagram [OF assms(1,2), of p h1 d rest] decoded
  have "receive st p h1 (d # rest)
        = Some (Inr (subarray (landed h1 p d) (3 + bytesRead a), hostname a, port a),
                h1 @ [filled p d], rest)"
    by (simp add: received_def)
  moreover have "view_bytes (h1 @ [filled p d]) (subarray (landed h1 p d) (3 + bytesRead a))
                 = drop (3 + bytesRead a) (take (buffer_size p) d)"
    by (simp add: view_bytes_landed received_def)
  ultimately show ?thesis using h1 by simp
qed

lemma receive_returns:
  assumes "receive st p h q = Some (Inr (payload, host, prt), h', q')"
  shows "\<exists>bad d a. q = bad @ d # q' \<and> list_all nonzero_header bad \<and> \<not> nonzero_header d
           \<and> fst (deserializeAddress (uint8ArrayToReader (drop 3 (received p d)))) = Inr a
           \<and> host = hostname a \<and> prt = port a
           \<and> view_bytes h' payload = drop (3 + bytesRead a) (received p d)"
  using assms
proof (induction q arbitrary: h)
  case Nil
  then show ?case
    by (auto simp: new_Uint8Array_def split: option.splits if_splits)
next
  case (Cons d ds)
  show ?case
  proof (cases "await_ready st = Some None \<and> is_open (udpConn st)")
    case False
    with Cons.prems show ?thesis
      by (auto simp: new_Uint8Array_def split: option.splits if_splits)
  next
    case True
    then have ready: "await_ready st = Some None" and opn: "is_open (udpConn st)" by simp_all
    note unf = receive_datagram [OF ready opn, of p h d ds]
    show ?thesis
    proof (cases "nonzero_header d")
      case True
      with unf Cons.prems
      have "receive st p (h @ [filled p d]) ds = Some (Inr (payload, host, prt), h', q')" by simp
      from Cons.IH [OF this]
      obtain bad d' a where *: "ds = bad @ d' # q'" "list_all nonzero_header bad"
          "\<not> nonzero_header d'"
          "fst (deserializeAddress (uint8ArrayToReader (drop 3 (received p d')))) = Inr a"
          "host = hostname a" "prt = port a"
          "view_bytes h' payload = drop (3 + bytesRead a) (received p d')"
        by blast
      have "d # ds = (d # bad) @ d' # q'" using *(1) by simp
      moreover have "list_all nonzero_header (d # bad)" using True *(2) by simp
      ultimately show ?thesis using *(3-7) by blast
    next
      case False
      with unf Cons.prems obtain a where
        a: "fst (deserializeAddress (uint8ArrayToReader (drop 3 (received p d)))) = Inr a"
        and res: "payload = subarray (landed h p d) (3 + bytesRead a)" "host = hostname a"
          "prt = port a" "h' = h @ [filled p d]" "q' = ds"
        by (auto split: sum.splits)
      have "view_bytes h' payload = drop (3 + bytesRead a) (received p d)"
        unfolding res by (rule view_bytes_landed)
      moreover have "d # ds = [] @ d # q'" using res by simp
      moreover have "list_all nonzero_header []" by simp
      ultimately show ?thesis using False a res(2,3) by blast
    qed
  qed
qed

lemma receive_invalid:
  assumes ready: "await_ready st = Some None" and "is_open (udpConn st)"
    and bad: "list_all nonzero_header bad"
    and good: "\<not> nonzero_header d"
    and failed: "fst (deserializeAddress (uint8ArrayToReader (drop 3 (take (buffer_size p) d))))
                 = Inl e"
  shows "\<exists>h'. receive st p h (bad @ d # rest) = Some (Inl e, h', rest)"
proof -
  from receive_skips [OF assms(1,2) bad, of p h "d # rest"]
  obtain h1 where h1: "receive st p h (bad @ d # rest) = receive st p h1 (d # rest)" by blast
  from receive_datagram [OF assms(1,2), of p h1 d rest] good failed
  have "receive st p h1 (d # rest) = Some (Inl e, h1 @ [filled p d], rest)"
    by (simp add: received_def)
  with h1 show ?thesis by simp
qed

lemma empty_undecodable:
  "fst (deserializeAddress (uint8ArrayToReader [])) = Inl (UnexpectedEof (eof_message 1))"
  using readN_short(1) [of "uint8ArrayToReader []" 1]
  by (simp add: deserializeAddress_def uint8ArrayToReader_def case_prod_beta split: sum.splits)

text \<open>
  C5, as stated, fails for a datagram that is nothing but a header of three zero bytes:
  it is the first one with such a header, and \<^verbatim>\<open>receive\<close> does not return it, nor the
  well-formed datagram behind it, but throws the \<^verbatim>\<open>UnexpectedEof\<close> of the decoder,
  which finds no address type to read (line 377 has no \<^verbatim>\<open>try\<close> around it).
\<close>

theorem receive_undecodable_counterexample:
  "receive ready_relay None [] [[0, 0, 0], datagram_1_2_3_4]
   = Some (Inl (UnexpectedEof (eof_message 1)), [[0, 0, 0] @ replicate 2045 0],
           [datagram_1_2_3_4])"
proof -
  have hdr: "\<not> nonzero_header [0, 0, 0]" by (simp add: nonzero_header_def)
  have rcv: "drop 3 (received None [0, 0, 0]) = []" by (simp add: received_def)
  have fil: "filled None [0, 0, 0] = [0, 0, 0] @ replicate 2045 0"
    by (simp add: filled_def received_def buffer_size_def)
  show ?thesis
    by (subst receive_datagram [OF ready_relay_ready]) (simp add: hdr rcv fil empty_undecodable)
qed

text \<open>
  C5, amended: on a relay that is ready and whose socket is open, the datagrams with a
  byte other than zero among their first three are dropped, and the first datagram whose
  first three bytes are zero, when its address decodes, is the one returned: the view
  returned holds the bytes after the header and the address (from offset 3 +
  \<open>bytesRead\<close> of what the buffer took of the datagram), with the host name and the port
  decoded from offset 3; the datagrams behind it stay in the socket. And whenever
  \<^verbatim>\<open>receive\<close> returns, what it returns comes in this way from the first datagram
  without such a byte: a dropped datagram is never returned. When the address of the first
  datagram without such a byte does not decode, \<^verbatim>\<open>receive\<close> returns nothing: it throws
  the error of the decoder, and the datagrams behind stay in the socket.
\<close>

theorem receive_first_valid:
  "(await_ready st = Some None \<and> is_open (udpConn st) \<and> list_all nonzero_header bad
      \<and> take 3 d = [0, 0, 0]
      \<and> fst (deserializeAddress (uint8ArrayToReader (drop 3 (take (buffer_size p) d)))) = Inr a
    \<longrightarrow> (\<exists>payload h'.
           receive st p h (bad @ d # rest) = Some (Inr (payload, hostname a, port a), h', rest)
           \<and> view_bytes h' payload = drop (3 + bytesRead a) (take (buffer_size p) d)))
   \<and> (\<forall>payload host prt h' q'.
         receive st p h q = Some (Inr (payload, host, prt), h', q') \<longrightarrow>
         (\<exists>skipped d a. q = skipped @ d # q' \<and> list_all nonzero_header skipped
            \<and> \<not> nonzero_header d
            \<and> fst (deserializeAddress (uint8ArrayToReader (drop 3 (take (buffer_size p) d))))
                = Inr a
            \<and> host = hostname a \<and> prt = port a
            \<and> view_bytes h' payload = drop (3 + bytesRead a) (take (buffer_size p) d)))
   \<and> (await_ready st = Some None \<and> is_open (udpConn st) \<and> list_all nonzero_header bad
        \<and> \<not> nonzero_header d
        \<and> fst (deserializeAddress (uint8ArrayToReader (drop 3 (take (buffer_size p) d)))) = Inl e
      \<longrightarrow> (\<exists>h'. receive st p h (bad @ d # rest) = Some (Inl e, h', rest)))"
proof (intro conjI impI allI)
  assume "await_ready st = Some None \<and> is_open (udpConn st) \<and> list_all nonzero_header bad
      \<and> take 3 d = [0, 0, 0]
      \<and> fst (deserializeAddress (uint8ArrayToReader (drop 3 (take (buffer_size p) d)))) = Inr a"
  then show "\<exists>payload h'.
           receive st p h (bad @ d # rest) = Some (Inr (payload, hostname a, port a), h', rest)
           \<and> view_bytes h' payload = drop (3 + bytesRead a) (take (buffer_size p) d)"
    using receive_valid [of st bad d p a h rest] by blast
next
  fix payload host prt h' q'
  assume "receive st p h q = Some (Inr (payload, host, prt), h', q')"
  from receive_returns [OF this]
  show "\<exists>skipped d a. q = skipped @ d # q' \<and> list_all nonzero_header skipped
            \<and> \<not> nonzero_header d
            \<and> fst (deserializeAddress (uint8ArrayToReader (drop 3 (take (buffer_size p) d))))
                = Inr a
            \<and> host = hostname a \<and> prt = port a
            \<and> view_bytes h' payload = drop (3 + bytesRead a) (take (buffer_size p) d)"
    unfolding received_def by blast
next
  assume "await_ready st = Some None \<and> is_open (udpConn st) \<and> list_all nonzero_header bad
        \<and> \<not> nonzero_header d
        \<and> fst (deserializeAddress (uint8ArrayToReader (drop 3 (take (buffer_size p) d)))) = Inl e"
  then show "\<exists>h'. receive st p h (bad @ d # rest) = Some (Inl e, h', rest)"
    using receive_invalid [of st bad d p e h rest] by blast
qed

theorem receive_first_valid_witness:
  "(\<exists>payload h'.
      receive ready_relay None [] ([[0, 0, 1, 9, 9], [5]] @ datagram_1_2_3_4 # [[0, 0, 0]])
        = Some (Inr (payload, str ''1.2.3.4'', 80), h', [[0, 0, 0]])
      \<and> view_bytes h' payload = [7, 7])
   \<and> (\<exists>h'. receive ready_relay None [] ([[0, 0, 1, 9, 9], [5]] @ [0, 0] # [datagram_1_2_3_4])
              = Some (Inl (UnexpectedEof (eof_message 1)), h', [datagram_1_2_3_4]))"
proof -
  have bad: "list_all nonzero_header [[0, 0, 1, 9, 9], [5]]"
    by (simp add: nonzero_header_def)
  have good: "take 3 datagram_1_2_3_4 = [0, 0, 0]"
    by (simp add: datagram_1_2_3_4_def)
  have dec: "fst (deserializeAddress
                (uint8ArrayToReader (drop 3 (take (buffer_size None) datagram_1_2_3_4))))
             = Inr \<lparr>hostname = str ''1.2.3.4'', port = 80, bytesRead = 7\<rparr>"
    using ipv4_example_decoded by (simp add: datagram_1_2_3_4_def buffer_size_def)
  have short: "\<not> nonzero_header [0, 0]" by (simp add: nonzero_header_def)
  have fails: "fst (deserializeAddress (uint8ArrayToReader (drop 3 (take (buffer_size None) [0, 0]))))
               = Inl (UnexpectedEof (eof_message 1))"
    using empty_undecodable by simp
  from receive_first_valid [where st = ready_relay and bad = "[[0, 0, 1, 9, 9], [5]]"
         and d = datagram_1_2_3_4 and p = None and h = "[]" and rest = "[[0, 0, 0]]"
         and a = "\<lparr>hostname = str ''1.2.3.4'', port = 80, bytesRead = 7\<rparr>",
       THEN conjunct1, rule_format]
       ready_relay_ready bad good dec
  have first: "\<exists>payload h'.
      receive ready_relay None [] ([[0, 0, 1, 9, 9], [5]] @ datagram_1_2_3_4 # [[0, 0, 0]])
        = Some (Inr (payload, str ''1.2.3.4'', 80), h', [[0, 0, 0]])
      \<and> view_bytes h' payload = [7, 7]"
    by (simp add: datagram_1_2_3_4_def buffer_size_def)
  from receive_first_valid [where st = ready_relay and bad = "[[0, 0, 1, 9, 9], [5]]"
         and d = "[0, 0]" and p = None and h = "[]" and rest = "[datagram_1_2_3_4]"
         and e = "UnexpectedEof (eof_message 1)",
       THEN conjunct2, THEN conjunct2, rule_format]
       ready_relay_ready bad short fails
  have second: "\<exists>h'. receive ready_relay None [] ([[0, 0, 1, 9, 9], [5]] @ [0, 0] # [datagram_1_2_3_4])
              = Some (Inl (UnexpectedEof (eof_message 1)), h', [datagram_1_2_3_4])"
    by simp
  from first second show ?thesis by blast
qed

lemma receive_frame:
  assumes "receive st p h q = Some (res, h', q')"
  shows "take (length h) h' = h
         \<and> (\<forall>payload host prt. res = Inr (payload, host, prt) \<longrightarrow>
               length h \<le> v_buf payload \<and> v_buf payload < length h'
               \<and> length (h' ! v_buf payload) = buffer_size p)"
  using assms
proof (induction q arbitrary: h)
  case Nil
  then show ?case
    by (auto simp: new_Uint8Array_def split: option.splits if_splits)
next
  case (Cons d ds)
  show ?case
  proof (cases "await_ready st = Some None \<and> is_open (udpConn st)")
    case False
    with Cons.prems show ?thesis
      by (auto simp: new_Uint8Array_def split: option.splits if_splits)
  next
    case True
    then have ready: "await_ready st = Some None" and opn: "is_open (udpConn st)" by simp_all
    note unf = receive_datagram [OF ready opn, of p h d ds]
    show ?thesis
    proof (cases "nonzero_header d")
      case True
      with unf Cons.prems have "receive st p (h @ [filled p d]) ds = Some (res, h', q')" by simp
      from Cons.IH [OF this]
      have tk: "take (length (h @ [filled p d])) h' = h @ [filled p d]"
        and pl: "\<forall>payload host prt. res = Inr (payload, host, prt) \<longrightarrow>
               length (h @ [filled p d]) \<le> v_buf payload \<and> v_buf payload < length h'
               \<and> length (h' ! v_buf payload) = buffer_size p"
        by blast+
      have "take (length h) h' = take (length h) (take (length (h @ [filled p d])) h')"
        by (simp add: min_def)
      also have "\<dots> = h" unfolding tk by simp
      finally have "take (length h) h' = h" .
      with pl show ?thesis by auto
    next
      case False
      with unf Cons.prems show ?thesis
        by (auto simp: landed_def subarray_def Let_def length_filled nth_append
                 split: sum.splits)
    qed
  qed
qed

text \<open>
  C10: \<^verbatim>\<open>receive(p)\<close> leaves every buffer that existed before the call as it was, the
  buffer of \<open>p\<close> among them; the view it returns is a view of a buffer made during the
  call, of length \<open>p.length + 1024\<close>, or 2048 without \<open>p\<close>.
\<close>

theorem receive_leaves_buffers:
  assumes "receive st p h q = Some (res, h', q')"
  shows "take (length h) h' = h
         \<and> (\<forall>pv. p = Some pv \<and> v_buf pv < length h \<longrightarrow> view_bytes h' pv = view_bytes h pv)
         \<and> (\<forall>payload host prt. res = Inr (payload, host, prt) \<longrightarrow>
               length h \<le> v_buf payload \<and> v_buf payload < length h'
               \<and> length (h' ! v_buf payload) = (case p of Some pv \<Rightarrow> v_len pv + 1024 | None \<Rightarrow> 2048))"
proof -
  note fr = receive_frame [OF assms]
  from fr have tk: "take (length h) h' = h" by blast
  have same: "h' ! i = h ! i" if "i < length h" for i
  proof -
    have "h ! i = take (length h) h' ! i" by (simp only: tk)
    also have "\<dots> = h' ! i" using that by simp
    finally show ?thesis by simp
  qed
  have "view_bytes h' pv = view_bytes h pv" if "v_buf pv < length h" for pv
    using same [OF that] by (simp add: view_bytes_def)
  with fr show ?thesis by (auto simp: buffer_size_def)
qed

theorem receive_leaves_buffers_witness:
  "receive ready_relay (Some \<lparr>v_buf = 0, v_off = 0, v_len = 4\<rparr>) [[9, 9, 9, 9]] [datagram_1_2_3_4]
     = Some (Inr (\<lparr>v_buf = 1, v_off = 10, v_len = 2\<rparr>, str ''1.2.3.4'', 80),
             [[9, 9, 9, 9], datagram_1_2_3_4 @ replicate 1016 0], [])
   \<and> view_bytes [[9, 9, 9, 9], datagram_1_2_3_4 @ replicate 1016 0] \<lparr>v_buf = 0, v_off = 0, v_len = 4\<rparr>
     = [9, 9, 9, 9]
   \<and> length ([[9, 9, 9, 9], datagram_1_2_3_4 @ replicate 1016 0] ! 1) = 1028"
proof -
  let ?p = "Some \<lparr>v_buf = 0, v_off = 0, v_len = 4\<rparr>"
  have hdr: "\<not> nonzero_header datagram_1_2_3_4"
    by (simp add: nonzero_header_def datagram_1_2_3_4_def)
  have rcv: "received ?p datagram_1_2_3_4 = datagram_1_2_3_4"
    by (simp add: received_def buffer_size_def datagram_1_2_3_4_def)
  have dec: "fst (deserializeAddress (uint8ArrayToReader (drop 3 (received ?p datagram_1_2_3_4))))
             = Inr \<lparr>hostname = str ''1.2.3.4'', port = 80, bytesRead = 7\<rparr>"
    using ipv4_example_decoded by (simp add: rcv) (simp add: datagram_1_2_3_4_def)
  have vals: "subarray (landed [[9, 9, 9, 9]] ?p datagram_1_2_3_4) 10 = \<lparr>v_buf = 1, v_off = 10, v_len = 2\<rparr>"
    "filled ?p datagram_1_2_3_4 = datagram_1_2_3_4 @ replicate 1016 0"
    by (simp_all add: filled_def landed_def subarray_def rcv)
       (simp_all add: datagram_1_2_3_4_def buffer_size_def)
  have eq: "receive ready_relay ?p [[9, 9, 9, 9]] [datagram_1_2_3_4]
     = Some (Inr (\<lparr>v_buf = 1, v_off = 10, v_len = 2\<rparr>, str ''1.2.3.4'', 80),
             [[9, 9, 9, 9], datagram_1_2_3_4 @ replicate 1016 0], [])"
    by (subst receive_datagram [OF ready_relay_ready]) (simp add: hdr dec vals)
  from receive_leaves_buffers [OF eq] eq show ?thesis
    by (simp add: view_bytes_def datagram_1_2_3_4_def)
qed

section \<open>One negotiation for a relay\<close>

lemma truncate_fields:
  "proxyInfo (relay.truncate s) = proxyInfo s" "isReady (relay.truncate s) = isReady s"
  "udpConn (relay.truncate s) = udpConn s"
  by (simp_all add: relay.truncate_def)

lemma close_keeps_None: "proxyInfo st = None \<Longrightarrow> proxyInfo (snd (close throwErr st)) = None"
  by (simp add: close_def Let_def case_prod_beta)

lemma connect_calls_connectAndRequest_net:
  "connect_calls (snd (connectAndRequest_net other credentials cmd host prt nw))
   = connect_calls nw + 1"
  by (simp add: connectAndRequest_net_def Deno_connect_def split: sum.splits prod.splits)

lemma run_close_fields:
  "net (run_close t s) = net s" "negotiation (run_close t s) = negotiation s"
  "isReady (run_close t s) = isReady s" "suspended (run_close t s) = suspended s"
  "resumed (run_close t s) = resumed s"
  "proxyInfo (run_close t s) = proxyInfo (snd (close t (relay.truncate s)))"
  by (simp_all add: run_close_def case_prod_beta)

lemma settled_not_Pending: "settled outcome \<noteq> Pending"
  by (simp add: settled_def split: sum.split)

lemma await_ready_Pending:
  "isReady s = Pending \<Longrightarrow> proxyInfo s = None \<Longrightarrow> await_ready (relay.truncate s) = None"
  by (simp add: await_ready_def truncate_fields)

lemma await_ready_settled:
  assumes "isReady s = settled outcome" and "\<forall>e. outcome = Inl e \<longrightarrow> proxyInfo s = None"
  shows "await_ready (relay.truncate s) = Some (thrown outcome)"
  using assms
  by (cases outcome) (simp_all add: await_ready_def truncate_fields settled_def thrown_def
                        split: option.split)

lemma enter_invariant:
  assumes "isReady s = (if finished then settled outcome else Pending)"
    and "\<not> finished \<longrightarrow> proxyInfo s = None"
    and "\<forall>e. outcome = Inl e \<longrightarrow> proxyInfo s = None"
    and "suspended s = (if finished then [] else cs)"
    and "map fst (resumed s) = (if finished then cs else [])"
    and "list_all (\<lambda>x. snd x = thrown outcome) (resumed s)"
  shows "enter c s = (if finished then s\<lparr>resumed := resumed s @ [(c, thrown outcome)]\<rparr>
                      else s\<lparr>suspended := suspended s @ [c]\<rparr>)"
proof (cases finished)
  case True
  with assms(1) have "isReady s = settled outcome" by simp
  from await_ready_settled [OF this assms(3)] True show ?thesis by (simp add: enter_def)
next
  case False
  with assms(1,2) have "isReady s = Pending" "proxyInfo s = None" by simp_all
  from await_ready_Pending [OF this] False show ?thesis by (simp add: enter_def)
qed

lemma settle_invariant:
  assumes "negotiation s = outcome"
    and "isReady s = (if finished then settled outcome else Pending)"
    and "\<not> finished \<longrightarrow> proxyInfo s = None"
    and "\<forall>e. outcome = Inl e \<longrightarrow> proxyInfo s = None"
    and "suspended s = (if finished then [] else cs)"
    and "map fst (resumed s) = (if finished then cs else [])"
    and "list_all (\<lambda>x. snd x = thrown outcome) (resumed s)"
  shows "net (settle s) = net s \<and> negotiation (settle s) = outcome
         \<and> isReady (settle s) = settled outcome
         \<and> (\<forall>e. outcome = Inl e \<longrightarrow> proxyInfo (settle s) = None)
         \<and> suspended (settle s) = []
         \<and> map fst (resumed (settle s)) = cs
         \<and> list_all (\<lambda>x. snd x = thrown outcome) (resumed (settle s))"
proof (cases finished)
  case True
  with assms(2) settled_not_Pending [of outcome] have "isReady s \<noteq> Pending" by simp
  then have "settle s = s" by (simp add: settle_def)
  with assms True show ?thesis by simp
next
  case False
  with assms have p: "isReady s = Pending" "proxyInfo s = None" "suspended s = cs"
    "resumed s = []" by simp_all
  show ?thesis
  proof (cases outcome)
    case (Inl e)
    with assms(1) p close_keeps_None [of "relay.truncate s" False] show ?thesis
      by (simp add: settle_def run_close_fields truncate_fields settled_def thrown_def
            list_all_iff comp_def)
  next
    case (Inr x)
    with assms(1) p show ?thesis
      by (cases x) (simp add: settle_def settled_def thrown_def list_all_iff comp_def)
  qed
qed

lemma step_invariant:
  assumes "net s = nw" and "negotiation s = outcome"
    and "isReady s = (if finished then settled outcome else Pending)"
    and "\<not> finished \<longrightarrow> proxyInfo s = None"
    and "\<forall>e. outcome = Inl e \<longrightarrow> proxyInfo s = None"
    and "suspended s = (if finished then [] else cs)"
    and "map fst (resumed s) = (if finished then cs else [])"
    and "list_all (\<lambda>x. snd x = thrown outcome) (resumed s)"
  shows "net (step s ev) = nw \<and> negotiation (step s ev) = outcome
         \<and> isReady (step s ev)
             = (if finished \<or> ev = Negotiation_done then settled outcome else Pending)
         \<and> (\<not> (finished \<or> ev = Negotiation_done) \<longrightarrow> proxyInfo (step s ev) = None)
         \<and> (\<forall>e. outcome = Inl e \<longrightarrow> proxyInfo (step s ev) = None)
         \<and> suspended (step s ev)
             = (if finished \<or> ev = Negotiation_done then [] else cs @ caller_of ev)
         \<and> map fst (resumed (step s ev))
             = (if finished \<or> ev = Negotiation_done then cs @ caller_of ev else [])
         \<and> list_all (\<lambda>x. snd x = thrown outcome) (resumed (step s ev))"
proof (cases ev)
  case (Call_send c)
  with enter_invariant [OF assms(3-8), of c] assms show ?thesis by simp
next
  case (Call_receive c)
  with enter_invariant [OF assms(3-8), of c] assms show ?thesis by simp
next
  case Negotiation_done
  with settle_invariant [OF assms(2-8)] assms(1) show ?thesis by simp
next
  case Control_ended
  with assms close_keeps_None [of "relay.truncate s" False] show ?thesis
    by (simp add: run_close_fields truncate_fields)
next
  case Call_close
  with assms close_keeps_None [of "relay.truncate s" True] show ?thesis
    by (simp add: run_close_fields truncate_fields)
qed

lemma listenDatagram_fields:
  "net (listenDatagram other credentials udp localAddr nw)
   = snd (connectAndRequest_net other credentials UdpAssociate (fst localAddr) (snd localAddr) nw)"
  "negotiation (listenDatagram other credentials udp localAddr nw)
   = fst (connectAndRequest_net other credentials UdpAssociate (fst localAddr) (snd localAddr) nw)"
  "isReady (listenDatagram other credentials udp localAddr nw) = Pending"
  "proxyInfo (listenDatagram other credentials udp localAddr nw) = None"
  "suspended (listenDatagram other credentials udp localAddr nw) = []"
  "resumed (listenDatagram other credentials udp localAddr nw) = []"
  by (simp_all add: listenDatagram_def case_prod_beta)

lemma run_invariant:
  fixes other credentials udp localAddr nw evs
  defines "outcome \<equiv> fst (connectAndRequest_net other credentials UdpAssociate
                            (fst localAddr) (snd localAddr) nw)"
    and "s \<equiv> run (listenDatagram other credentials udp localAddr nw) evs"
  shows "net s = snd (connectAndRequest_net other credentials UdpAssociate
                        (fst localAddr) (snd localAddr) nw)
         \<and> negotiation s = outcome
         \<and> isReady s = (if Negotiation_done \<in> set evs then settled outcome else Pending)
         \<and> (Negotiation_done \<notin> set evs \<longrightarrow> proxyInfo s = None)
         \<and> (\<forall>e. outcome = Inl e \<longrightarrow> proxyInfo s = None)
         \<and> suspended s = (if Negotiation_done \<in> set evs then [] else callers evs)
         \<and> map fst (resumed s) = (if Negotiation_done \<in> set evs then callers evs else [])
         \<and> list_all (\<lambda>x. snd x = thrown outcome) (resumed s)"
  unfolding s_def
proof (induction evs rule: rev_induct)
  case Nil
  show ?case by (simp add: run_def listenDatagram_fields callers_def outcome_def)
next
  case (snoc ev evs)
  let ?s = "run (listenDatagram other credentials udp localAddr nw) evs"
  from snoc have *: "net ?s = snd (connectAndRequest_net other credentials UdpAssociate
                        (fst localAddr) (snd localAddr) nw)"
    "negotiation ?s = outcome"
    "isReady ?s = (if Negotiation_done \<in> set evs then settled outcome else Pending)"
    "\<not> Negotiation_done \<in> set evs \<longrightarrow> proxyInfo ?s = None"
    "\<forall>e. outcome = Inl e \<longrightarrow> proxyInfo ?s = None"
    "suspended ?s = (if Negotiation_done \<in> set evs then [] else callers evs)"
    "map fst (resumed ?s) = (if Negotiation_done \<in> set evs then callers evs else [])"
    "list_all (\<lambda>x. snd x = thrown outcome) (resumed ?s)"
    by simp_all
  have r: "run (listenDatagram other credentials udp localAddr nw) (evs @ [ev]) = step ?s ev"
    by (simp add: run_def)
  have m: "Negotiation_done \<in> set (evs @ [ev]) \<longleftrightarrow> Negotiation_done \<in> set evs \<or> ev = Negotiation_done"
    by auto
  have c: "callers (evs @ [ev]) = callers evs @ caller_of ev" by (simp add: callers_def)
  from step_invariant [OF *, of ev] show ?case unfolding r m c by simp
qed

lemma refusing_network_outcome:
  "fst (connectAndRequest_net (\<lambda>s. 0) None UdpAssociate (str ''127.0.0.1'') 2080 refusing_network)
   = Inl (Error (str ''no acceptable authentication methods''))"
proof -
  have "fst (connectAndRequest (\<lambda>s. 0) None UdpAssociate (str ''127.0.0.1'') 2080
               (refusing_conn [[5, 255]]))
        = Inl (Error (str ''no acceptable authentication methods''))"
    by (simp add: connectAndRequest_def Let_def conn_readN_def case_prod_beta readN_enough
          writeAll_def refusing_conn_def SOCKS_VERSION_def)
  then show ?thesis
    by (simp add: connectAndRequest_net_def Deno_connect_def refusing_network_def case_prod_beta
          split: sum.split)
qed

text \<open>
  C9: take a relay made by \<^verbatim>\<open>listenDatagram\<close> and let anything happen to it, with as
  many callers of \<^verbatim>\<open>send\<close> and \<^verbatim>\<open>receive\<close> as one likes. Then \<^verbatim>\<open>Deno.connect\<close> has
  been called once since \<^verbatim>\<open>listenDatagram\<close> began, by its one call of
  \<^verbatim>\<open>#connectAndRequest\<close>, and the network is as this call left it: no second exchange
  with the proxy was started. Until the negotiation ends the promise is pending and the
  callers so far, all of them, are suspended on it. Once it has ended, the promise is
  settled with what this one call delivered, nobody is suspended any more, and every
  caller, whether it waited or came later, is past the \<^verbatim>\<open>await\<close> with the outcome of
  this one call: the error that it threw, or none.
\<close>

theorem single_negotiation:
  "connect_calls (net (run (listenDatagram other credentials udp localAddr nw) evs))
     = connect_calls nw + 1
   \<and> net (run (listenDatagram other credentials udp localAddr nw) evs)
     = snd (connectAndRequest_net other credentials UdpAssociate (fst localAddr) (snd localAddr) nw)
   \<and> isReady (run (listenDatagram other credentials udp localAddr nw) evs)
     = (if Negotiation_done \<in> set evs
        then settled (fst (connectAndRequest_net other credentials UdpAssociate
                             (fst localAddr) (snd localAddr) nw))
        else Pending)
   \<and> suspended (run (listenDatagram other credentials udp localAddr nw) evs)
     = (if Negotiation_done \<in> set evs then [] else callers evs)
   \<and> map fst (resumed (run (listenDatagram other credentials udp localAddr nw) evs))
     = (if Negotiation_done \<in> set evs then callers evs else [])
   \<and> list_all (\<lambda>x. snd x = thrown (fst (connectAndRequest_net other credentials UdpAssociate
                                          (fst localAddr) (snd localAddr) nw)))
        (resumed (run (listenDatagram other credentials udp localAddr nw) evs))"
  using run_invariant [of other credentials udp localAddr nw evs]
    connect_calls_connectAndRequest_net [of other credentials UdpAssociate "fst localAddr"
      "snd localAddr" nw]
  by simp

theorem single_negotiation_witness:
  "connect_calls (net (run (listenDatagram (\<lambda>s. 0) None open_socket (str ''127.0.0.1'', 2080)
                              refusing_network)
                         [Call_send 1, Call_receive 2])) = 1
   \<and> suspended (run (listenDatagram (\<lambda>s. 0) None open_socket (str ''127.0.0.1'', 2080)
                       refusing_network)
                  [Call_send 1, Call_receive 2]) = [1, 2]
   \<and> resumed (run (listenDatagram (\<lambda>s. 0) None open_socket (str ''127.0.0.1'', 2080)
                     refusing_network)
                [Call_send 1, Call_receive 2]) = []
   \<and> connect_calls (net (run (listenDatagram (\<lambda>s. 0) None open_socket (str ''127.0.0.1'', 2080)
                                refusing_network)
                           [Call_send 1, Call_receive 2, Negotiation_done, Call_send 3])) = 1
   \<and> isReady (run (listenDatagram (\<lambda>s. 0) None open_socket (str ''127.0.0.1'', 2080)
                     refusing_network)
                [Call_send 1, Call_receive 2, Negotiation_done, Call_send 3])
     = Rejected (Error (str ''no acceptable authentication methods''))
   \<and> suspended (run (listenDatagram (\<lambda>s. 0) None open_socket (str ''127.0.0.1'', 2080)
                       refusing_network)
                  [Call_send 1, Call_receive 2, Negotiation_done, Call_send 3]) = []
   \<and> map fst (resumed (run (listenDatagram (\<lambda>s. 0) None open_socket (str ''127.0.0.1'', 2080)
                              refusing_network)
                         [Call_send 1, Call_receive 2, Negotiation_done, Call_send 3])) = [1, 2, 3]
   \<and> list_all (\<lambda>x. snd x = Some (Error (str ''no acceptable authentication methods'')))
        (resumed (run (listenDatagram (\<lambda>s. 0) None open_socket (str ''127.0.0.1'', 2080)
                         refusing_network)
                    [Call_send 1, Call_receive 2, Negotiation_done, Call_send 3]))"
proof -
  have calls: "connect_calls refusing_network = 0" by (simp add: refusing_network_def)
  show ?thesis
    using single_negotiation [of "\<lambda>s. 0" None open_socket "(str ''127.0.0.1'', 2080)"
            refusing_network "[Call_send 1, Call_receive 2]"]
          single_negotiation [of "\<lambda>s. 0" None open_socket "(str ''127.0.0.1'', 2080)"
            refusing_network "[Call_send 1, Call_receive 2, Negotiation_done, Call_send 3]"]
    by (simp add: refusing_network_outcome calls callers_def settled_def thrown_def
          connect_calls_connectAndRequest_net)
qed


section \<open>What the decoder reads\<close>

lemma readN_Inr:
  assumes "readN r n = (Inr out, r')"
  shows "n \<le> length (remaining r)" and "out = take n (remaining r)"
    and "remaining r' = drop n (remaining r)"
proof -
  from assms have f: "fst (readN r n) = Inr out" and s: "snd (readN r n) = r'" by simp_all
  from readN_cases [OF f] show "n \<le> length (remaining r)" and "out = take n (remaining r)"
    by simp_all
  then show "remaining r' = drop n (remaining r)"
    using readN_enough(2) [of n r] s by simp
qed

lemma deserializeHost_consumes:
  assumes "deserializeHost type r = (Inr (host, len), r')"
  shows "len \<le> length (remaining r) \<and> remaining r' = drop len (remaining r)"
proof -
  consider (v4) "type = AddrType_value IPv4"
    | (v6) "type \<noteq> AddrType_value IPv4" "type = AddrType_value IPv6"
    | (dn) "type \<noteq> AddrType_value IPv4" "type \<noteq> AddrType_value IPv6" "type = AddrType_value DomainName"
    | (other) "type \<noteq> AddrType_value IPv4" "type \<noteq> AddrType_value IPv6" "type \<noteq> AddrType_value DomainName"
    by blast
  then show ?thesis
  proof cases
    case v4
    with assms obtain parts where "readN r 4 = (Inr parts, r')" and "len = 4"
      by (auto simp: deserializeHost_def split: prod.splits sum.splits)
    with readN_Inr [of r 4 parts r'] show ?thesis by simp
  next
    case v6
    with assms obtain buff where "readN r 16 = (Inr buff, r')" and "len = 16"
      by (auto simp: deserializeHost_def split: prod.splits sum.splits)
    with readN_Inr [of r 16 buff r'] show ?thesis by simp
  next
    case dn
    with assms obtain lbuf r1 name where
      a: "readN r 1 = (Inr lbuf, r1)" and b: "readN r1 (unat (hd lbuf)) = (Inr name, r')"
      and len: "len = unat (hd lbuf) + 1"
      by (auto simp: deserializeHost_def split: prod.splits sum.splits)
    note A = readN_Inr [OF a] and B = readN_Inr [OF b]
    from A(1,3) B(1) have "len \<le> length (remaining r)" unfolding len by simp
    moreover from A(3) B(3) have "remaining r' = drop len (remaining r)"
      unfolding len by (simp add: add.commute)
    ultimately show ?thesis by simp
  next
    case other
    with assms show ?thesis by (simp add: deserializeHost_def)
  qed
qed

text \<open>
  The number \<open>bytesRead\<close> that \<open>deserializeAddress\<close> returns is the number of bytes it
  took from the reader: what the reader holds afterwards is what it held before without
  its first \<open>bytesRead\<close> bytes.
\<close>

theorem deserializeAddress_consumes:
  assumes "deserializeAddress r = (Inr a, r')"
  shows "bytesRead a \<le> length (remaining r) \<and> remaining r' = drop (bytesRead a) (remaining r)"
proof -
  from assms obtain tbuf r1 host len r2 pbuf where
    a: "readN r 1 = (Inr tbuf, r1)"
    and b: "deserializeHost (hd tbuf) r1 = (Inr (host, len), r2)"
    and c: "readN r2 2 = (Inr pbuf, r')"
    and br: "bytesRead a = len + 3"
    by (auto simp: deserializeAddress_def split: prod.splits sum.splits)
  note A = readN_Inr [OF a] and B = deserializeHost_consumes [OF b] and C = readN_Inr [OF c]
  from A(1,3) B C(1) have "bytesRead a \<le> length (remaining r)" unfolding br by simp
  moreover from A(3) B C(3) have "remaining r' = drop (bytesRead a) (remaining r)"
    unfolding br by (simp add: numeral_3_eq_3)
  ultimately show ?thesis by simp
qed

theorem deserializeAddress_consumes_witness:
  "remaining (snd (deserializeAddress (uint8ArrayToReader [1, 1, 2, 3, 4, 0, 80, 7, 7]))) = [7, 7]"
proof -
  have eq: "deserializeAddress (uint8ArrayToReader [1, 1, 2, 3, 4, 0, 80, 7, 7])
      = (Inr \<lparr>hostname = str ''1.2.3.4'', port = 80, bytesRead = 7\<rparr>,
         ArrayReader [1, 1, 2, 3, 4, 0, 80, 7, 7] 7)"
    by (simp add: deserializeAddress_def deserializeHost_def uint8ArrayToReader_def
        readN_ArrayReader String_number.simps str_def)
  from deserializeAddress_consumes [OF eq] show ?thesis
    unfolding eq by (simp add: uint8ArrayToReader_def)
qed

text \<open>
  A type byte other than 1, 3 and 4 makes \<open>deserializeAddress\<close> throw the error of the
  unexpected address type, with the byte in its message.
\<close>

theorem unexpected_address_type:
  assumes "remaining r = t # rest" and "t \<noteq> 1" and "t \<noteq> 3" and "t \<noteq> 4"
  shows "fst (deserializeAddress r)
         = Inl (Error (str ''unexpected address type: '' @ String_number (unat t)))"
proof -
  have "1 \<le> length (remaining r)" using assms(1) by simp
  from readN_enough [OF this] have "fst (readN r 1) = Inr [t]" using assms(1) by simp
  then obtain r1 where "readN r 1 = (Inr [t], r1)" by (cases "readN r 1") simp
  then show ?thesis using assms(2-4)
    by (simp add: deserializeAddress_def deserializeHost_def)
qed

theorem unexpected_address_type_witness:
  "fst (deserializeAddress (uint8ArrayToReader [2, 0, 0]))
   = Inl (Error (str ''unexpected address type: 2''))"
proof -
  have "remaining (uint8ArrayToReader [2, 0, 0]) = 2 # [0, 0]"
    by (simp add: uint8ArrayToReader_def)
  from unexpected_address_type [OF this] show ?thesis
    by (simp add: String_number.simps str_def)
qed

section \<open>The round trip for IPv4\<close>

lemma unat_digit: "k < 10 \<Longrightarrow> unat (of_nat (48 + k) :: u16) = 48 + k"
  by (simp add: unat_of_nat del: of_nat_add)

lemma is_digit_of_nat: "k < 10 \<Longrightarrow> is_digit (of_nat (48 + k))"
  by (simp add: is_digit_def word_le_nat_alt unat_digit del: of_nat_add)

lemma String_number_digits: "list_all is_digit (String_number n)"
proof (induction n rule: String_number.induct)
  case (1 n)
  show ?case
  proof (cases "n < 10")
    case True
    then show ?thesis by (subst String_number.simps) (simp add: is_digit_of_nat del: of_nat_add)
  next
    case False
    with 1 show ?thesis by (subst String_number.simps) (simp add: is_digit_of_nat del: of_nat_add)
  qed
qed

lemma decimal_value_snoc: "decimal_value (ds @ [c]) = 10 * decimal_value ds + (unat c - 48)"
  by (simp add: decimal_value_def)

lemma decimal_value_String_number: "decimal_value (String_number n) = n"
proof (induction n rule: String_number.induct)
  case (1 n)
  show ?case
  proof (cases "n < 10")
    case True
    then show ?thesis
      by (subst String_number.simps) (simp add: decimal_value_def unat_digit del: of_nat_add)
  next
    case False
    with 1 have "decimal_value (String_number (n div 10)) = n div 10" by simp
    with False show ?thesis
      by (subst String_number.simps) (simp add: decimal_value_snoc unat_digit del: of_nat_add)
  qed
qed

lemma String_number_small:
  assumes "n < 1000"
  shows "String_number n \<noteq> []" and "length (String_number n) \<le> 3"
proof -
  have one: "length (String_number k) = 1" if "k < 10" for k
    using that by (subst String_number.simps) simp
  have two: "length (String_number k) = 2" if "10 \<le> k" "k < 100" for k
    using that one [of "k div 10"] by (subst String_number.simps) simp
  have three: "length (String_number k) = 3" if "100 \<le> k" "k < 1000" for k
    using that two [of "k div 10"] by (subst String_number.simps) simp
  from assms consider "n < 10" | "10 \<le> n" "n < 100" | "100 \<le> n" "n < 1000" by linarith
  then have "length (String_number n) \<in> {1, 2, 3}"
    using one two three by cases auto
  then show "String_number n \<noteq> []" and "length (String_number n) \<le> 3" by auto
qed

lemma Number_String_number:
  assumes "n < 1000"
  shows "Number_to_uint8 other (String_number n) = ToUint8 n"
  using String_number_small [OF assms] String_number_digits [of n]
  by (simp add: Number_to_uint8_def decimal_value_String_number)

lemma no_dot_in_digits: "list_all is_digit ds \<Longrightarrow> 0x2E \<notin> set ds"
  by (auto simp: list_all_iff is_digit_def)

lemma split_from_part:
  assumes "sep \<notin> set part"
  shows "split_from sep acc (part @ sep # rest) = (acc @ part) # split_from sep [] rest"
    and "split_from sep acc part = [acc @ part]"
  using assms by (induction part arbitrary: acc) auto

lemma rep_rems_zero: "s \<in> set (rep_rems f 0 hi s)"
  by (cases hi) simp_all

lemma rep_rems_more:
  assumes "s1 \<in> set (rx_rems r s)" and "s2 \<in> set (rep_rems (rx_rems r) (lo - 1) hi s1)"
  shows "s2 \<in> set (rep_rems (rx_rems r) lo (Suc hi) s)"
  using assms by auto

lemma digits_rems:
  assumes "list_all is_digit ds" and "ds \<noteq> []" and "length ds \<le> 3"
  shows "rest \<in> set (rx_rems (Rep 1 3 (Cls is_digit)) (ds @ rest))"
proof -
  have step: "t \<in> set (rx_rems (Cls is_digit) (c # t))" if "is_digit c" for c t
    using that by simp
  from assms(2,3) consider a where "ds = [a]" | a b where "ds = [a, b]"
    | a b c where "ds = [a, b, c]"
    by (cases ds rule: list.exhaust; simp; (rename_tac x xs, case_tac xs; simp;
        (rename_tac y ys, case_tac ys; simp)))
  then show ?thesis
  proof cases
    case 1
    with assms(1) have "is_digit a" by simp
    have "rest \<in> set (rep_rems (rx_rems (Cls is_digit)) 1 (Suc 2) (a # rest))"
      by (rule rep_rems_more [OF step [OF \<open>is_digit a\<close>]]) (simp add: rep_rems_zero)
    with 1 show ?thesis by (simp add: numeral_3_eq_3 numeral_2_eq_2)
  next
    case 2
    with assms(1) have d: "is_digit a" "is_digit b" by simp_all
    have "rest \<in> set (rep_rems (rx_rems (Cls is_digit)) 0 (Suc 1) (b # rest))"
      by (rule rep_rems_more [OF step [OF d(2)]]) (simp add: rep_rems_zero)
    then have "rest \<in> set (rep_rems (rx_rems (Cls is_digit)) 1 (Suc 2) (a # b # rest))"
      by (intro rep_rems_more [OF step [OF d(1)]]) (simp add: numeral_2_eq_2)
    with 2 show ?thesis by (simp add: numeral_3_eq_3 numeral_2_eq_2)
  next
    case 3
    with assms(1) have d: "is_digit a" "is_digit b" "is_digit c" by simp_all
    have "rest \<in> set (rep_rems (rx_rems (Cls is_digit)) 0 (Suc 0) (c # rest))"
      by (rule rep_rems_more [OF step [OF d(3)]]) (simp add: rep_rems_zero)
    then have "rest \<in> set (rep_rems (rx_rems (Cls is_digit)) 0 (Suc 1) (b # c # rest))"
      by (intro rep_rems_more [OF step [OF d(2)]]) simp
    then have "rest \<in> set (rep_rems (rx_rems (Cls is_digit)) 1 (Suc 2) (a # b # c # rest))"
      by (intro rep_rems_more [OF step [OF d(1)]]) (simp add: numeral_2_eq_2)
    with 3 show ?thesis by (simp add: numeral_3_eq_3 numeral_2_eq_2)
  qed
qed

lemma group_rems:
  assumes "list_all is_digit ds" and "ds \<noteq> []" and "length ds \<le> 3"
  shows "rest \<in> set (rx_rems octet_group (ds @ 0x2E # rest))"
  using digits_rems [OF assms, of "0x2E # rest"] by (auto simp: octet_group_def)

lemma v4Pattern_dotted:
  assumes "list_all is_digit a \<and> a \<noteq> [] \<and> length a \<le> 3"
    and "list_all is_digit b \<and> b \<noteq> [] \<and> length b \<le> 3"
    and "list_all is_digit c \<and> c \<noteq> [] \<and> length c \<le> 3"
    and "list_all is_digit d \<and> d \<noteq> [] \<and> length d \<le> 3"
  shows "v4Pattern_test (a @ 0x2E # b @ 0x2E # c @ 0x2E # d @ rest)"
proof -
  let ?g = "rx_rems octet_group"
  have g1: "b @ 0x2E # c @ 0x2E # d @ rest \<in> set (?g (a @ 0x2E # b @ 0x2E # c @ 0x2E # d @ rest))"
    using assms(1) by (intro group_rems) simp_all
  have g2: "c @ 0x2E # d @ rest \<in> set (?g (b @ 0x2E # c @ 0x2E # d @ rest))"
    using assms(2) by (intro group_rems) simp_all
  have g3: "d @ rest \<in> set (?g (c @ 0x2E # d @ rest))"
    using assms(3) by (intro group_rems) simp_all
  have "d @ rest \<in> set (rep_rems ?g 1 (Suc 0) (c @ 0x2E # d @ rest))"
    by (rule rep_rems_more [OF g3]) (simp add: rep_rems_zero)
  then have "d @ rest \<in> set (rep_rems ?g 2 (Suc 1) (b @ 0x2E # c @ 0x2E # d @ rest))"
    by (intro rep_rems_more [OF g2]) simp
  then have "d @ rest \<in> set (rep_rems ?g 3 (Suc 2) (a @ 0x2E # b @ 0x2E # c @ 0x2E # d @ rest))"
    by (intro rep_rems_more [OF g1]) (simp add: numeral_2_eq_2)
  then have three: "d @ rest \<in> set (rx_rems (Rep 3 3 octet_group)
                                   (a @ 0x2E # b @ 0x2E # c @ 0x2E # d @ rest))"
    by (simp add: numeral_3_eq_3 numeral_2_eq_2)
  have last: "rest \<in> set (rx_rems (Rep 1 3 (Cls is_digit)) (d @ rest))"
    using assms(4) by (intro digits_rems) simp_all
  from three last
  have "rest \<in> set (rx_rems v4Pattern (a @ 0x2E # b @ 0x2E # c @ 0x2E # d @ rest))"
    unfolding v4Pattern_def octet_group_def [symmetric] by (simp only: rx_rems.simps) auto
  then show ?thesis unfolding v4Pattern_test_def by auto
qed

lemma octet_string:
  fixes x :: u8
  shows "list_all is_digit (String_number (unat x)) \<and> String_number (unat x) \<noteq> []
         \<and> length (String_number (unat x)) \<le> 3"
    and "Number_to_uint8 other (String_number (unat x)) = x"
    and "0x2E \<notin> set (String_number (unat x))"
proof -
  have small: "unat x < 256" using unsigned_less [of x, where 'a = nat] by simp
  then have lt: "unat x < 1000" by simp
  show "list_all is_digit (String_number (unat x)) \<and> String_number (unat x) \<noteq> []
         \<and> length (String_number (unat x)) \<le> 3"
    using String_number_small [OF lt] String_number_digits by simp
  have "unat x mod 256 = unat x" using small by simp
  then show "Number_to_uint8 other (String_number (unat x)) = x"
    by (simp add: Number_String_number [OF lt] ToUint8_def)
  show "0x2E \<notin> set (String_number (unat x))"
    by (rule no_dot_in_digits) (rule String_number_digits)
qed

lemma dotted_quad_eq:
  "dotted_quad a b c d
   = String_number (unat a) @ 0x2E # String_number (unat b) @ 0x2E # String_number (unat c)
     @ 0x2E # String_number (unat d) @ []"
  by (simp add: dotted_quad_def str_def)

lemma split_dotted_quad:
  "split (dotted_quad a b c d) 0x2E
   = [String_number (unat a), String_number (unat b), String_number (unat c),
      String_number (unat d)]"
  unfolding dotted_quad_eq split_def
  by (simp add: split_from_part octet_string(3))

lemma port_bytes_value:
  assumes "prt < 65536"
  shows "unat (ToUint8 (prt div 256)) * 256 + unat (ToUint8 (prt mod 256)) = prt"
proof -
  from assms have "prt div 256 < 256" by simp
  then show ?thesis by (simp add: ToUint8_def unat_of_nat)
qed

text \<open>
  The round trip of the codec for IPv4: four octets written in decimal with dots match
  \<^verbatim>\<open>v4Pattern\<close>, are encoded as the type 1, the four octets and the port, and are
  decoded to the same host name and port, with 7 bytes read, for every port below 65536.
\<close>

theorem ipv4_round_trip:
  assumes "prt < 65536"
  shows "v4Pattern_test (dotted_quad a b c d)
         \<and> serializeAddress other (dotted_quad a b c d) prt = [1, a, b, c, d] @ portBytes prt
         \<and> deserializeAddress (uint8ArrayToReader (serializeAddress other (dotted_quad a b c d) prt))
             = (Inr \<lparr>hostname = dotted_quad a b c d, port = prt, bytesRead = 7\<rparr>,
                ArrayReader ([1, a, b, c, d] @ portBytes prt) 7)"
proof -
  have v4: "v4Pattern_test (dotted_quad a b c d)"
    unfolding dotted_quad_eq by (rule v4Pattern_dotted) (rule octet_string(1))+
  have enc: "serializeAddress other (dotted_quad a b c d) prt = [1, a, b, c, d] @ portBytes prt"
    by (simp add: serializeAddress_def v4 split_dotted_quad octet_string(2))
  have dec: "deserializeAddress (uint8ArrayToReader ([1, a, b, c, d] @ portBytes prt))
             = (Inr \<lparr>hostname = dotted_quad a b c d, port = prt, bytesRead = 7\<rparr>,
                ArrayReader ([1, a, b, c, d] @ portBytes prt) 7)"
    using port_bytes_value [OF assms]
    by (simp add: deserializeAddress_def deserializeHost_def uint8ArrayToReader_def
          readN_ArrayReader portBytes_def dotted_quad_def)
  from v4 enc dec show ?thesis by simp
qed

theorem ipv4_round_trip_witness:
  "dotted_quad 1 2 3 4 = str ''1.2.3.4''
   \<and> serializeAddress (\<lambda>s. 0) (str ''1.2.3.4'') 1234 = [1, 1, 2, 3, 4, 4, 210]
   \<and> fst (deserializeAddress (uint8ArrayToReader (serializeAddress (\<lambda>s. 0) (str ''1.2.3.4'') 1234)))
       = Inr \<lparr>hostname = str ''1.2.3.4'', port = 1234, bytesRead = 7\<rparr>"
proof -
  have q: "dotted_quad 1 2 3 4 = str ''1.2.3.4''"
    by (simp add: dotted_quad_def String_number.simps str_def)
  have p: "(1234::nat) < 65536" by simp
  from ipv4_round_trip [OF p, of 1 2 3 4 "\<lambda>s. 0"] show ?thesis
    unfolding q by (elim conjE) (simp add: portBytes_def ToUint8_def)
qed


section \<open>The round trip for domain names\<close>

lemma ascii_byte:
  fixes u :: u16
  assumes "u < 0x80"
  shows "unat (ucast u :: u8) = unat u" and "unat u < 128"
proof -
  from assms show lt: "unat u < 128" by (simp add: word_less_nat_alt)
  have "unat (of_nat (unat u) :: u8) = unat u mod 2 ^ LENGTH(8)" by (rule unat_of_nat)
  with lt show "unat (ucast u :: u8) = unat u" by simp
qed

lemma utf8_decode_ascii:
  fixes s :: js_string
  shows "list_all (\<lambda>u. u < 0x80) s \<Longrightarrow>
     utf8_decode 0 0 0x80 0xBF (map ucast s) = map unat s"
proof (induction s)
  case Nil
  show ?case by (simp add: utf8_decode.simps(1))
next
  case (Cons u s)
  then have u: "u < 0x80" and rest: "list_all (\<lambda>u. u < 0x80) s" by simp_all
  note b = ascii_byte [OF u]
  have "utf8_decode 0 0 0x80 0xBF (ucast u # map ucast s)
        = unat u # utf8_decode 0 0 0x80 0xBF (map ucast s)"
    using b by (subst utf8_decode.simps) (simp add: Let_def)
  with Cons.IH [OF rest] show ?case by simp
qed

lemma utf16_ascii:
  fixes s :: js_string
  shows "list_all (\<lambda>u. u < 0x80) s \<Longrightarrow> concat (map utf16_code_units (map unat s)) = s"
proof (induction s)
  case Nil
  show ?case by simp
next
  case (Cons u s)
  then have u: "u < 0x80" by simp
  have "unat u < 0x10000" using ascii_byte(2) [OF u] by simp
  then have "utf16_code_units (unat u) = [u]" by (simp add: utf16_code_units_def)
  with Cons show ?case by simp
qed

lemma TextDecoder_decode_ascii:
  fixes s :: js_string
  assumes "list_all (\<lambda>u. u < 0x80) s"
  shows "TextDecoder_decode (map ucast s) = s"
proof (cases s)
  case Nil
  have "utf8_decode 0 0 0x80 0xBF [] = []" by (simp add: utf8_decode.simps(1))
  with Nil show ?thesis by (simp add: TextDecoder_decode_def)
next
  case (Cons u rest)
  with assms have u: "u < 0x80" by simp
  have "unat u \<noteq> 0xFEFF" using ascii_byte(2) [OF u] by simp
  then show ?thesis
    using utf8_decode_ascii [OF assms] utf16_ascii [OF assms] Cons
    by (simp add: TextDecoder_decode_def)
qed

text \<open>
  The round trip of the codec for domain names: an ASCII host name of at most 255
  characters that matches neither pattern is decoded, from what it was encoded to, to
  the same host name and port, with its length plus 4 bytes read, for every port below
  65536.
\<close>

theorem domain_round_trip:
  assumes "ascii host" and "length host \<le> 255" and "prt < 65536"
    and "\<not> v4Pattern_test host" and "\<not> v6Pattern_test host"
  shows "fst (deserializeAddress (uint8ArrayToReader (serializeAddress other host prt)))
         = Inr \<lparr>hostname = host, port = prt, bytesRead = length host + 4\<rparr>"
proof -
  let ?bytes = "map (\<lambda>u. of_nat (unat u)) host :: u8 list"
  let ?wire = "[3, of_nat (length host)] @ ?bytes @ portBytes prt"
  from assms(1) have asc: "list_all (\<lambda>u. u < 0x80) host" by (simp add: ascii_def)
  have enc: "TextEncoder_encode host = ?bytes" by (rule TextEncoder_encode_ascii [OF asc])
  have ser: "serializeAddress other host prt = ?wire"
    using assms(2,4,5) by (simp add: serializeAddress_def enc ToUint8_def)
  have len: "unat (of_nat (length host) :: u8) = length host"
    using assms(2) by (simp add: unat_of_nat)
  have prt: "unat (ToUint8 (prt div 256)) * 256 + unat (ToUint8 (prt mod 256)) = prt"
    by (rule port_bytes_value [OF assms(3)])
  have "deserializeAddress (uint8ArrayToReader ?wire)
        = (Inr \<lparr>hostname = host, port = prt, bytesRead = length host + 4\<rparr>,
           ArrayReader ?wire (length host + 4))"
    using prt
    by (simp add: deserializeAddress_def deserializeHost_def uint8ArrayToReader_def
          readN_ArrayReader portBytes_def len TextDecoder_decode_ascii [OF asc])
  then show ?thesis unfolding ser by simp
qed

theorem domain_round_trip_witness:
  "fst (deserializeAddress (uint8ArrayToReader (serializeAddress (\<lambda>s. 0) (str ''example.com'') 3106)))
   = Inr \<lparr>hostname = str ''example.com'', port = 3106, bytesRead = 15\<rparr>"
proof -
  have a: "ascii (str ''example.com'')" by (simp add: ascii_def str_def)
  have l: "length (str ''example.com'') \<le> 255" by (simp add: str_def)
  have p: "(3106::nat) < 65536" by simp
  from domain_round_trip [OF a l p example_com(1,2), of "\<lambda>s. 0"] show ?thesis
    by (simp add: str_def)
qed

section \<open>Failure of the request\<close>

lemma conn_readN_next:
  assumes "n \<le> length (remaining (incoming c))"
  shows "fst (conn_readN c n) = Inr (take n (remaining (incoming c)))"
    and "remaining (incoming (snd (conn_readN c n))) = drop n (remaining (incoming c))"
    and "sock (snd (conn_readN c n)) = sock c"
    and "outgoing (snd (conn_readN c n)) = outgoing c"
  using readN_enough [OF assms] by (simp_all add: conn_readN_def case_prod_beta)

text \<open>
  The reply to the request: when the proxy chose no authentication and the three bytes of
  its reply to the request arrive with a version other than 5, or with a status other
  than 0, \<open>connectAndRequest\<close> throws the error of the unsupported version, or the error
  whose message \<open>decodeError\<close> gives for the status; the request written before was
  5, the command, 0 and the encoded address, and \<^verbatim>\<open>close()\<close> was called on the
  connection.
\<close>

theorem request_failure:
  assumes reply: "take 5 (remaining (incoming conn0)) = [5, 0, v, s, x]"
    and refused: "v \<noteq> 5 \<or> s \<noteq> 0"
  shows "fst (connectAndRequest other credentials cmd host prt conn0)
           = Inl (Error (if v \<noteq> 5
                         then str ''unsupported SOCKS version number: '' @ String_number (unat v)
                         else decodeError s))
         \<and> sock (snd (connectAndRequest other credentials cmd host prt conn0))
             = snd (resource_close (sock conn0))
         \<and> last (outgoing (snd (connectAndRequest other credentials cmd host prt conn0)))
             = [5, Command_value cmd, 0] @ serializeAddress other host prt"
proof -
  let ?all = "remaining (incoming conn0)"
  have len: "5 \<le> length ?all" using arg_cong [OF reply, of length] by simp
  have first: "take 2 ?all = [5, 0]"
  proof -
    have "take 2 ?all = take 2 (take 5 ?all)" by (simp add: min_def)
    then show ?thesis unfolding reply by simp
  qed
  have second: "take 3 (drop 2 ?all) = [v, s, x]"
  proof -
    have "take 3 (drop 2 ?all) = drop 2 (take 5 ?all)" by (simp add: drop_take)
    then show ?thesis unfolding reply by simp
  qed
  let ?methods = "[AuthMethod_value NoAuth]
                    @ (if credentials = None then [] else [AuthMethod_value UsernamePassword])"
  let ?c1 = "writeAll conn0 ([SOCKS_VERSION, ToUint8 (length ?methods)] @ ?methods)"
  obtain c2 where r1: "conn_readN ?c1 2 = (Inr [5, 0], c2)"
    and c2: "remaining (incoming c2) = drop 2 ?all" "sock c2 = sock conn0"
      "outgoing c2 = outgoing ?c1"
    using conn_readN_next [of 2 ?c1] len first
    by (cases "conn_readN ?c1 2") (simp add: incoming_writeAll sock_writeAll)
  have auth: "authenticate credentials 0 c2 = (None, c2)"
    by (simp add: authenticate_def)
  let ?c3 = "writeAll c2 ([SOCKS_VERSION, Command_value cmd, 0] @ serializeAddress other host prt)"
  obtain c4 where r2: "conn_readN ?c3 3 = (Inr [v, s, x], c4)"
    and c4: "sock c4 = sock conn0" "outgoing c4 = outgoing ?c3"
    using conn_readN_next [of 3 ?c3] len second c2
    by (cases "conn_readN ?c3 3") (simp add: incoming_writeAll sock_writeAll)
  have req: "request other cmd host prt c2
        = (Inl (Error (if v \<noteq> 5
                         then str ''unsupported SOCKS version number: '' @ String_number (unat v)
                         else decodeError s)),
           close_ignoring c4)"
    using refused unfolding request_def Let_def r2
    by (auto simp add: SOCKS_VERSION_def)
  have res: "connectAndRequest other credentials cmd host prt conn0
        = (Inl (Error (if v \<noteq> 5
                         then str ''unsupported SOCKS version number: '' @ String_number (unat v)
                         else decodeError s)),
           close_ignoring c4)"
    unfolding connectAndRequest_def Let_def r1
    by (simp add: SOCKS_VERSION_def auth req)
  show ?thesis
    unfolding res
    by (simp add: close_ignoring_def c4 c2 outgoing_writeAll SOCKS_VERSION_def)
qed

theorem request_failure_witness:
  "fst (connectAndRequest (\<lambda>s. 0) None Connect (str ''1.2.3.4'') 1234
          (refusing_conn [[5, 0], [5, 5, 0, 1, 0, 0, 0, 0, 0, 0]]))
     = Inl (Error (str ''Connection refused''))
   \<and> sock (snd (connectAndRequest (\<lambda>s. 0) None Connect (str ''1.2.3.4'') 1234
          (refusing_conn [[5, 0], [5, 5, 0, 1, 0, 0, 0, 0, 0, 0]])))
     = \<lparr>is_open = False, close_calls = 1, close_fault = None\<rparr>"
proof -
  have a: "take 5 (remaining (incoming (refusing_conn [[5, 0], [5, 5, 0, 1, 0, 0, 0, 0, 0, 0]])))
           = [5, 0, 5, 5, 0]"
    by (simp add: refusing_conn_def)
  have b: "(5::u8) \<noteq> 5 \<or> (5::u8) \<noteq> 0" by simp
  from request_failure [OF a b, of "\<lambda>s. 0" None Connect "str ''1.2.3.4''" 1234]
  show ?thesis
    by (simp add: refusing_conn_def resource_close_def decodeError_def)
qed

end
